theory Spec2Isabelle
  imports Complex_Main "HOL-Library.Log_Nat"
begin

chapter \<open>The model\<close>

section \<open>Python values, exceptions and arithmetic\<close>

text \<open>
  The module \<^verbatim>\<open>coffea/processor/executor.py\<close> is embedded function by function.
  Exceptions are values of \<open>exn\<close>; a function that can raise returns \<open>exn + 'a\<close>
  with \<open>Inl\<close> for the raised exception. A leading underscore of a Python name is
  dropped (\<^verbatim>\<open>_reduce\<close> is \<open>reduce_call\<close>, \<^verbatim>\<open>_chunk_generator\<close> is
  \<open>chunk_generator\<close>), since an identifier starts with a letter here.
\<close>

datatype exn =
    RuntimeError string
  | ValueError string
  | TypeError string
  | OSError string
  | UnboundLocalError string
  | OtherException string
  | ZeroDivisionError
  | OverflowError string
  | IndexError
  | AttributeError string
  | KeyError string
  | KeyboardInterrupt

text \<open>The values a metadata dictionary holds: entry counts, uuids, cluster lists, user strings.\<close>

datatype mval = IntV int | BytesV string | ListV "int list" | StrV string

type_synonym metadata = "(string \<times> mval) list"

text \<open>
  \<^verbatim>\<open>round\<close> with one argument rounds a half to the even neighbour; \<^verbatim>\<open>math.ceil\<close> is
  the ceiling. Both take a float, which is a rational here: every finite double is one.
\<close>

definition py_round :: "rat \<Rightarrow> int" where
  "py_round q =
     (let f = \<lfloor>q\<rfloor>; d = q - of_int f
      in if d < 1 / 2 then f
         else if 1 / 2 < d then f + 1
         else if even f then f else f + 1)"

definition py_ceil :: "rat \<Rightarrow> int" where
  "py_ceil q = \<lceil>q\<rceil>"

text \<open>
  Python's \<^verbatim>\<open>a / b\<close> on integers is true division: the result is the double
  (IEEE 754 binary64) nearest to the exact quotient, a tie going to the even significand;
  it raises ZeroDivisionError on a zero divisor and OverflowError when the rounded
  quotient is out of the range of a double. \<open>pow2 k\<close> is \<open>2 ^ k\<close>; \<open>ilog2 a b\<close> is the
  binary exponent of \<open>a / b\<close> for positive \<open>a\<close> and \<open>b\<close>, that is
  \<open>2 ^ e \<le> a / b < 2 ^ (e + 1)\<close>; \<open>double_pos a b\<close> rounds the quotient to a multiple of the
  unit in the last place, which is \<open>2 ^ (e - 52)\<close> for a normal number (53 bits of
  significand) and \<open>2 ^ (- 1074)\<close> below \<open>2 ^ (- 1022)\<close>; \<open>double_div\<close> adds the sign.
  A quotient that rounds to \<open>2 ^ 1024\<close> or more has no double.
\<close>

definition pow2 :: "int \<Rightarrow> rat" where
  "pow2 k = (if 0 \<le> k then 2 ^ nat k else 1 / 2 ^ nat (- k))"

definition ilog2 :: "int \<Rightarrow> int \<Rightarrow> int" where
  "ilog2 a b =
     (let k = bitlen a - bitlen b
      in if pow2 k \<le> of_int a / of_int b then k else k - 1)"

definition double_pos :: "int \<Rightarrow> int \<Rightarrow> rat" where
  "double_pos a b =
     (let ulp = pow2 (max (ilog2 a b) (- 1022) - 52)
      in of_int (py_round (of_int a / of_int b / ulp)) * ulp)"

definition double_div :: "int \<Rightarrow> int \<Rightarrow> rat" where
  "double_div a b =
     (if a = 0 \<or> b = 0 then 0 else of_int (sgn a * sgn b) * double_pos \<bar>a\<bar> \<bar>b\<bar>)"

definition py_truediv :: "int \<Rightarrow> int \<Rightarrow> exn + rat" where
  "py_truediv a b =
     (if b = 0 then Inl ZeroDivisionError
      else if pow2 1024 \<le> \<bar>double_div a b\<bar>
      then Inl (OverflowError ''integer division result too large for a float'')
      else Inr (double_div a b))"

section \<open>File descriptors and work items\<close>

definition PROTECTED_NAMES :: "string list" where
  "PROTECTED_NAMES =
     [''dataset'', ''filename'', ''treename'', ''metadata'', ''entrystart'',
      ''entrystop'', ''fileuuid'', ''numentries'', ''uuid'', ''clusters'']"

record FileRef =
  dataset :: string
  filename :: string
  treename :: string

record FileMeta = FileRef +
  metadata :: "metadata option"

record WorkItem = FileRef +
  entrystart :: int
  entrystop :: int
  fileuuid :: mval
  usermeta :: metadata

text \<open>\<^verbatim>\<open>WorkItem.__len__\<close>\<close>

definition len_WorkItem :: "WorkItem \<Rightarrow> int" where
  "len_WorkItem w = entrystop w - entrystart w"

text \<open>\<^verbatim>\<open>FileMeta.populated(clusters)\<close>\<close>

definition populated :: "FileMeta \<Rightarrow> bool \<Rightarrow> bool" where
  "populated self clusters =
     (case metadata self of
        None \<Rightarrow> False
      | Some md \<Rightarrow>
          if map_of md ''numentries'' = None \<or> map_of md ''uuid'' = None then False
          else if clusters \<and> map_of md ''clusters'' = None then False
          else True)"

section \<open>The chunk planner: \<^verbatim>\<open>FileMeta.chunks\<close>\<close>

text \<open>
  The cluster-aligned branch. \<open>cluster_walk\<close> is the \<^verbatim>\<open>for c in clusters\<close> loop over
  the growing list \<^verbatim>\<open>chunks\<close>; \<open>cluster_chunks\<close> adds the closing boundary and zips
  neighbours. \<^verbatim>\<open>clusters[-1]\<close> of an empty list raises IndexError. In both
  branches of the planner every exception comes before the first unit, so the run of the
  planner is an exception or the list of its units.
\<close>

fun cluster_walk :: "int \<Rightarrow> int list \<Rightarrow> int list \<Rightarrow> int list" where
  "cluster_walk target_chunksize chunks [] = chunks"
| "cluster_walk target_chunksize chunks (c # cs) =
     cluster_walk target_chunksize
       (if c \<ge> last chunks + target_chunksize then chunks @ [c] else chunks) cs"

definition cluster_chunks :: "int \<Rightarrow> int list \<Rightarrow> exn + (int \<times> int) list" where
  "cluster_chunks target_chunksize clusters =
     (let chunks = cluster_walk target_chunksize [0] clusters
      in if clusters = [] then Inl IndexError
         else let chunks' = (if last clusters \<noteq> last chunks then chunks @ [last clusters] else chunks)
              in Inr (zip (butlast chunks') (tl chunks')))"

text \<open>
  The even-split branch is a generator with a feedback channel: the value the consumer
  sends after a unit (\<^verbatim>\<open>next_chunksize = yield ...\<close>) is the head of \<open>sent\<close>, and
  \<open>None\<close> (also when \<open>sent\<close> is used up) is a plain \<^verbatim>\<open>next()\<close>. A resized width can be
  negative, and then the loop never ends: not returning is the value \<open>None\<close>.
\<close>

partial_function (option) even_loop ::
  "bool \<Rightarrow> int \<Rightarrow> int \<Rightarrow> int \<Rightarrow> int option list \<Rightarrow> (int \<times> int) list option" where
  "even_loop dynamic_chunksize numentries actual_chunksize start sent =
     (if start < numentries then
        (let stop = min numentries (start + actual_chunksize);
             next_chunksize = (case sent of [] \<Rightarrow> None | v # _ \<Rightarrow> v);
             actual' = (case next_chunksize of
                          None \<Rightarrow> actual_chunksize
                        | Some v \<Rightarrow> if dynamic_chunksize \<and> v \<noteq> 0 then v else actual_chunksize)
         in Option.bind (even_loop dynamic_chunksize numentries actual' stop (tl sent))
              (\<lambda>rest. Some ((start, stop) # rest)))
      else Some [])"

definition even_chunksize :: "int \<Rightarrow> int \<Rightarrow> exn + int" where
  "even_chunksize numentries target_chunksize =
     (case py_truediv numentries target_chunksize of
        Inl e \<Rightarrow> Inl e
      | Inr q \<Rightarrow>
          (let n = max (py_round q) 1
           in case py_truediv numentries n of
                Inl e \<Rightarrow> Inl e
              | Inr r \<Rightarrow> Inr (py_ceil r)))"

definition mk_WorkItem :: "FileMeta \<Rightarrow> mval \<Rightarrow> metadata \<Rightarrow> int \<times> int \<Rightarrow> WorkItem" where
  "mk_WorkItem self uuid user_meta p =
     \<lparr>dataset = dataset self, filename = filename self, treename = treename self,
      entrystart = fst p, entrystop = snd p, fileuuid = uuid, usermeta = user_meta\<rparr>"

definition chunks ::
  "FileMeta \<Rightarrow> int \<Rightarrow> bool \<Rightarrow> bool \<Rightarrow> int option list \<Rightarrow> (exn + WorkItem list) option" where
  "chunks self target_chunksize align_clusters dynamic_chunksize sent =
     (if align_clusters \<and> dynamic_chunksize then
        Some (Inl (RuntimeError ''align_clusters cannot be used with a dynamic chunksize.''))
      else if \<not> populated self align_clusters then Some (Inl (RuntimeError ''''))
      else
        (case metadata self of
           None \<Rightarrow> Some (Inl (RuntimeError ''''))
         | Some md \<Rightarrow>
             (let user_meta = filter (\<lambda>kv. fst kv \<notin> set PROTECTED_NAMES) md
              in case map_of md ''uuid'' of
                   None \<Rightarrow> Some (Inl (RuntimeError ''''))
                 | Some uuid \<Rightarrow>
                     if align_clusters then
                       (case map_of md ''clusters'' of
                          Some (ListV clusters) \<Rightarrow>
                            (case cluster_chunks target_chunksize clusters of
                               Inl e \<Rightarrow> Some (Inl e)
                             | Inr ps \<Rightarrow> Some (Inr (map (mk_WorkItem self uuid user_meta) ps)))
                        | _ \<Rightarrow> Some (Inl (TypeError ''clusters'')))
                     else
                       (case map_of md ''numentries'' of
                          Some (IntV numentries) \<Rightarrow>
                            (case even_chunksize numentries target_chunksize of
                               Inl e \<Rightarrow> Some (Inl e)
                             | Inr actual_chunksize \<Rightarrow>
                                 map_option (\<lambda>ps. Inr (map (mk_WorkItem self uuid user_meta) ps))
                                   (even_loop dynamic_chunksize numentries actual_chunksize 0 sent))
                        | _ \<Rightarrow> Some (Inl (TypeError ''numentries''))))))"

declare even_loop.simps [code]

section \<open>The chunk generator: \<^verbatim>\<open>_chunk_generator\<close>\<close>

text \<open>
  A generator's run is the list of the units it yields and the exception that ends it,
  if one does. Without \<^verbatim>\<open>maxchunks\<close> the generator delegates to each file's planner in
  turn (\<^verbatim>\<open>yield from\<close>), so sent values reach the planner: a file that yields \<open>n\<close>
  units uses up \<open>n\<close> of them. The parameters \<^verbatim>\<open>metadata_fetcher\<close> and
  \<^verbatim>\<open>metadata_cache\<close> are not read by the body and are left out.
\<close>

fun chunk_generator_all ::
  "FileMeta list \<Rightarrow> int \<Rightarrow> bool \<Rightarrow> bool \<Rightarrow> int option list \<Rightarrow>
     (WorkItem list \<times> exn option) option" where
  "chunk_generator_all [] chunksize align_clusters dynamic_chunksize sent = Some ([], None)"
| "chunk_generator_all (filemeta # fileset) chunksize align_clusters dynamic_chunksize sent =
     (case chunks filemeta chunksize align_clusters dynamic_chunksize sent of
        None \<Rightarrow> None
      | Some (Inl e) \<Rightarrow> Some ([], Some e)
      | Some (Inr ws) \<Rightarrow>
          (case chunk_generator_all fileset chunksize align_clusters dynamic_chunksize
                  (drop (length ws) sent) of
             None \<Rightarrow> None
           | Some (rest, err) \<Rightarrow> Some (ws @ rest, err)))"

text \<open>
  With \<^verbatim>\<open>maxchunks\<close> the state is the list \<^verbatim>\<open>chunks\<close> and the counter
  \<^verbatim>\<open>nchunks\<close> (a \<^verbatim>\<open>defaultdict(int)\<close>: a function that is 0 by default).
  \<open>take_chunks\<close> is the inner \<^verbatim>\<open>for chunk in filemeta.chunks(...)\<close> with its
  \<^verbatim>\<open>break\<close>; \<open>chunk_generator_limited\<close> is the loop over the files with its
  \<^verbatim>\<open>continue\<close>. The planner is called with \<^verbatim>\<open>dynamic_chunksize=False\<close> and is
  iterated by a \<^verbatim>\<open>for\<close>, which sends nothing.
\<close>

fun take_chunks ::
  "int \<Rightarrow> string \<Rightarrow> WorkItem list \<Rightarrow> WorkItem list \<times> (string \<Rightarrow> int) \<Rightarrow>
     WorkItem list \<times> (string \<Rightarrow> int)" where
  "take_chunks maxchunks ds [] st = st"
| "take_chunks maxchunks ds (chunk # rest) st =
     (let chunks' = fst st @ [chunk];
          nchunks' = (snd st)(ds := snd st ds + 1)
      in if nchunks' ds \<ge> maxchunks then (chunks', nchunks')
         else take_chunks maxchunks ds rest (chunks', nchunks'))"

fun chunk_generator_limited ::
  "FileMeta list \<Rightarrow> int \<Rightarrow> bool \<Rightarrow> int \<Rightarrow> WorkItem list \<times> (string \<Rightarrow> int) \<Rightarrow>
     (exn + WorkItem list) option" where
  "chunk_generator_limited [] chunksize align_clusters maxchunks st = Some (Inr (fst st))"
| "chunk_generator_limited (filemeta # fileset) chunksize align_clusters maxchunks st =
     (if snd st (dataset filemeta) \<ge> maxchunks then
        chunk_generator_limited fileset chunksize align_clusters maxchunks st
      else
        (case chunks filemeta chunksize align_clusters False [] of
           None \<Rightarrow> None
         | Some (Inl e) \<Rightarrow> Some (Inl e)
         | Some (Inr ws) \<Rightarrow>
             chunk_generator_limited fileset chunksize align_clusters maxchunks
               (take_chunks maxchunks (dataset filemeta) ws st)))"

text \<open>
  \<^verbatim>\<open>yield from iter(chunks)\<close>: a list iterator has no \<^verbatim>\<open>send\<close>, so a value other
  than \<^verbatim>\<open>None\<close> sent after a unit raises AttributeError in the generator.
\<close>

fun yield_from_iter :: "'a list \<Rightarrow> int option list \<Rightarrow> 'a list \<times> exn option" where
  "yield_from_iter [] sent = ([], None)"
| "yield_from_iter (c # cs) sent =
     (case sent of
        Some v # _ \<Rightarrow> ([c], Some (AttributeError ''send''))
      | _ \<Rightarrow> (case yield_from_iter cs (tl sent) of (ys, err) \<Rightarrow> (c # ys, err)))"

definition chunk_generator ::
  "FileMeta list \<Rightarrow> int \<Rightarrow> bool \<Rightarrow> int option \<Rightarrow> bool \<Rightarrow> int option list \<Rightarrow>
     (WorkItem list \<times> exn option) option" where
  "chunk_generator fileset chunksize align_clusters maxchunks dynamic_chunksize sent =
     (case maxchunks of
        None \<Rightarrow> chunk_generator_all fileset chunksize align_clusters dynamic_chunksize sent
      | Some m \<Rightarrow>
          (case chunk_generator_limited fileset chunksize align_clusters m ([], \<lambda>_. 0) of
             None \<Rightarrow> None
           | Some (Inl e) \<Rightarrow> Some ([], Some e)
           | Some (Inr collected) \<Rightarrow> Some (yield_from_iter collected sent)))"

text \<open>\<^verbatim>\<open>list(gen)\<close>: the units, or the exception that ended the generator.\<close>

definition list_of_gen :: "'a list \<times> exn option \<Rightarrow> exn + 'a list" where
  "list_of_gen run = (case snd run of Some e \<Rightarrow> Inl e | None \<Rightarrow> Inr (fst run))"

section \<open>Accumulator values, the codec and the reducer\<close>

text \<open>
  The values that travel between the unit function, the executors and the reducer:
  \<^verbatim>\<open>None\<close>, an integer, an accumulator of the caller's type \<open>'a\<close> (opaque), a byte
  string (a compressed payload), a dictionary (\<^verbatim>\<open>{"out": ..., "metrics": ...}\<close>), and a
  set of file descriptors (the \<^verbatim>\<open>set_accumulator\<close> of the metadata pass).
\<close>

datatype 'a pyval =
    PyNone
  | Num int
  | Acc 'a
  | Bytes string
  | Dict "(string \<times> 'a pyval) list"
  | MetaSet "FileMeta list"

text \<open>
  Subscription \<^verbatim>\<open>v[k]\<close> with a string key, and the assignment \<^verbatim>\<open>d[k] = x\<close> on the
  association list of a dictionary (a key that is present keeps its place).
\<close>

definition setitem :: "(string \<times> 'v) list \<Rightarrow> string \<Rightarrow> 'v \<Rightarrow> (string \<times> 'v) list" where
  "setitem d k x =
     (if k \<in> fst ` set d then map (\<lambda>kv. if fst kv = k then (k, x) else kv) d
      else d @ [(k, x)])"

definition getitem :: "'a pyval \<Rightarrow> string \<Rightarrow> exn + 'a pyval" where
  "getitem v k =
     (case v of
        Dict d \<Rightarrow> (case map_of d k of None \<Rightarrow> Inl (KeyError k) | Some x \<Rightarrow> Inr x)
      | PyNone \<Rightarrow> Inl (TypeError ''NoneType object is not subscriptable'')
      | _ \<Rightarrow> Inl (TypeError ''object is not subscriptable''))"

text \<open>
  \<^verbatim>\<open>pickle\<close> and \<^verbatim>\<open>lz4.frame\<close> are libraries outside the repository: the four
  functions the module calls are the fields of a \<open>codec\<close>, a parameter of the model.
\<close>

record 'a codec =
  pickle_dumps :: "'a pyval \<Rightarrow> string"
  pickle_loads :: "string \<Rightarrow> exn + 'a pyval"
  lz4f_compress :: "string \<Rightarrow> int \<Rightarrow> string"
  lz4f_decompress :: "string \<Rightarrow> exn + string"

text \<open>\<^verbatim>\<open>_compress(item, clevel)\<close> and \<^verbatim>\<open>_decompress(item)\<close>\<close>

definition compress :: "'a codec \<Rightarrow> 'a pyval \<Rightarrow> int \<Rightarrow> 'a pyval" where
  "compress c item clevel = Bytes (lz4f_compress c (pickle_dumps c item) clevel)"

definition decompress :: "'a codec \<Rightarrow> 'a pyval \<Rightarrow> exn + 'a pyval" where
  "decompress c item =
     (case item of
        Bytes b \<Rightarrow>
          (case lz4f_decompress c b of Inl e \<Rightarrow> Inl e | Inr raw \<Rightarrow> pickle_loads c raw)
      | _ \<Rightarrow> Inl (TypeError ''a bytes-like object is required''))"

text \<open>\<^verbatim>\<open>_compression_wrapper(level, function).__call__\<close>\<close>

definition compression_wrapper ::
  "'a codec \<Rightarrow> int \<Rightarrow> ('i \<Rightarrow> exn + 'a pyval) \<Rightarrow> 'i \<Rightarrow> exn + 'a pyval" where
  "compression_wrapper c level function item =
     (case function item of Inl e \<Rightarrow> Inl e | Inr out \<Rightarrow> Inr (compress c out level))"

text \<open>
  Modelled from the spec: \<^verbatim>\<open>accumulate(items, accum)\<close> of \<^verbatim>\<open>coffea/processor/accumulator.py\<close>,
  which is not among the sources. The spec has it fold the results into the seed, left
  to right, with the accumulator's merge operation; the merge operation \<open>add\<close> is the
  caller's and may raise. The items come from a lazy iterator (\<^verbatim>\<open>map(f, items)\<close> or a
  generator): \<open>f\<close> produces each item when the fold reaches it and may raise, and the
  second component of the result is the list of the items pulled. Without a seed
  (\<^verbatim>\<open>accum=None\<close>) the first item starts the fold.
\<close>

fun accumulate_into ::
  "('v \<Rightarrow> 'v \<Rightarrow> exn + 'v) \<Rightarrow> ('i \<Rightarrow> exn + 'v) \<Rightarrow> 'i list \<Rightarrow> 'v \<Rightarrow> (exn + 'v) \<times> 'i list" where
  "accumulate_into add f [] accum = (Inr accum, [])"
| "accumulate_into add f (x # xs) accum =
     (case f x of
        Inl e \<Rightarrow> (Inl e, [x])
      | Inr v \<Rightarrow>
          (case add accum v of
             Inl e \<Rightarrow> (Inl e, [x])
           | Inr accum' \<Rightarrow>
               (case accumulate_into add f xs accum' of (r, pulled) \<Rightarrow> (r, x # pulled))))"

definition accumulate ::
  "('a pyval \<Rightarrow> 'a pyval \<Rightarrow> exn + 'a pyval) \<Rightarrow> ('i \<Rightarrow> exn + 'a pyval) \<Rightarrow> 'i list \<Rightarrow>
     'a pyval \<Rightarrow> (exn + 'a pyval) \<times> 'i list" where
  "accumulate add f items accum =
     (case accum of
        PyNone \<Rightarrow>
          (case items of
             [] \<Rightarrow> (Inr PyNone, [])
           | x # xs \<Rightarrow>
               (case f x of
                  Inl e \<Rightarrow> (Inl e, [x])
                | Inr v \<Rightarrow>
                    (case accumulate_into add f xs v of (r, pulled) \<Rightarrow> (r, x # pulled))))
      | _ \<Rightarrow> accumulate_into add f items accum)"

text \<open>
  \<^verbatim>\<open>_reduce(clevel).__call__(items)\<close>. \<^verbatim>\<open>items.pop()\<close> takes the last item, which
  becomes the running accumulator.
\<close>

definition reduce_call ::
  "'a codec \<Rightarrow> ('a pyval \<Rightarrow> 'a pyval \<Rightarrow> exn + 'a pyval) \<Rightarrow> int option \<Rightarrow> 'a pyval list \<Rightarrow>
     exn + 'a pyval" where
  "reduce_call c add clevel items =
     (if length items = 0 then Inl (ValueError ''Empty list provided to reduction'')
      else
        (case clevel of
           Some level \<Rightarrow>
             (case decompress c (last items) of
                Inl e \<Rightarrow> Inl e
              | Inr out \<Rightarrow>
                  (case fst (accumulate add (decompress c) (butlast items) out) of
                     Inl e \<Rightarrow> Inl e
                   | Inr out' \<Rightarrow> Inr (compress c out' level)))
         | None \<Rightarrow> fst (accumulate add Inr items PyNone)))"

text \<open>Sequencing of two steps that may raise.\<close>

definition and_then :: "exn + 'b \<Rightarrow> ('b \<Rightarrow> exn + 'c) \<Rightarrow> exn + 'c" where
  "and_then r f = (case r of Inl e \<Rightarrow> Inl e | Inr v \<Rightarrow> f v)"

section \<open>Warnings\<close>

text \<open>
  The warnings the module emits, by their content: the bad-file warning of the retry
  loops (file name, the attempt and the number of attempts when \<^verbatim>\<open>retries\<close> is not 0,
  and whether the text ends in "Will retry." rather than "Skipping."), the retry warning,
  and the three warnings of the completion handler.
\<close>

datatype warning =
    BadFileSource string "(int \<times> int) option" bool
  | WillRetry int int
  | NoFinishedJobs int nat
  | EarlyStop nat nat
  | CancellingRunning nat

definition bad_file_warning :: "string \<Rightarrow> int \<Rightarrow> int \<Rightarrow> warning" where
  "bad_file_warning fname retries retry_count =
     (if retries \<noteq> 0
      then BadFileSource fname (Some (retry_count + 1, retries + 1)) (retry_count + 1 < retries)
      else BadFileSource fname None False)"

text \<open>\<^verbatim>\<open>needle in s\<close> on strings.\<close>

fun starts_with :: "string \<Rightarrow> string \<Rightarrow> bool" where
  "starts_with [] s = True"
| "starts_with (p # ps) [] = False"
| "starts_with (p # ps) (c # cs) = (p = c \<and> starts_with ps cs)"

fun str_contains :: "string \<Rightarrow> string \<Rightarrow> bool" where
  "str_contains needle [] = (needle = [])"
| "str_contains needle (c # cs) = (starts_with needle (c # cs) \<or> str_contains needle cs)"

text \<open>
  Which \<^verbatim>\<open>except\<close> clause of the retry loops an exception reaches: \<^verbatim>\<open>OSError\<close>, any
  other \<^verbatim>\<open>Exception\<close>, or none (\<^verbatim>\<open>KeyboardInterrupt\<close> is no \<^verbatim>\<open>Exception\<close>).
\<close>

datatype exn_class = IsOSError string | IsException | IsBaseException

fun classify :: "exn \<Rightarrow> exn_class" where
  "classify (OSError msg) = IsOSError msg"
| "classify KeyboardInterrupt = IsBaseException"
| "classify e = IsException"

section \<open>The completion handler: \<^verbatim>\<open>_futures_handler\<close>\<close>

text \<open>
  The in-flight operations are numbered; \<open>res j\<close> is how operation \<open>j\<close> ends when it
  ends: with a result, with an exception, or cancelled. The pool and the clock are the
  environment, given as the list of what the successive calls of
  \<^verbatim>\<open>concurrent.futures.wait(futures, timeout, FIRST_COMPLETED)\<close> meet: \<open>Completed ds\<close>,
  the operations \<open>ds\<close> finish in that wait (none: a whole wait period passes without a
  completion), or \<open>Interrupted running\<close>, a \<^verbatim>\<open>KeyboardInterrupt\<close> arrives while the
  operations \<open>running\<close> are executing. When the list is used up nothing completes any
  more. A wait without a timeout returns only on a completion: waiting for ever is the
  value \<open>None\<close>. \<open>running_final\<close> are the operations executing when the generator is
  finalised. The run of the generator is what it yields, the exception that ends it,
  its warnings and the operations it cancels, each in order.
\<close>

datatype 'v fut = Done_ok 'v | Done_exn exn | Done_cancelled

datatype wait_event = Completed "nat list" | Interrupted "nat list"

record 'v handled =
  yielded :: "'v list"
  raised :: "exn option"
  warned :: "warning list"
  cancels :: "nat list"

text \<open>
  \<^verbatim>\<open>while done: yield done.pop().result()\<close>, a cancelled operation being passed over;
  an exception of an operation ends the loop.
\<close>

fun drain :: "(nat \<Rightarrow> 'v fut) \<Rightarrow> nat list \<Rightarrow> nat list \<Rightarrow> 'v list \<times> exn option" where
  "drain res cancelled [] = ([], None)"
| "drain res cancelled (j # js) =
     (if j \<in> set cancelled then drain res cancelled js
      else
        (case res j of
           Done_ok v \<Rightarrow> (case drain res cancelled js of (ys, e) \<Rightarrow> (v # ys, e))
         | Done_cancelled \<Rightarrow> drain res cancelled js
         | Done_exn e \<Rightarrow> ([], Some e)))"

text \<open>The \<^verbatim>\<open>finally\<close> block: a warning if operations are running, and all that remain are cancelled.\<close>

definition finalise :: "nat list \<Rightarrow> nat list \<Rightarrow> exn option \<Rightarrow> 'v handled" where
  "finalise running_final futures e =
     (let running = length (filter (\<lambda>j. j \<in> set running_final) futures)
      in \<lparr>yielded = [], raised = e,
          warned = (if running \<noteq> 0 then [CancellingRunning running] else []),
          cancels = futures\<rparr>)"

definition emit :: "'v list \<Rightarrow> warning list \<Rightarrow> nat list \<Rightarrow> 'v handled \<Rightarrow> 'v handled" where
  "emit ys ws cs h =
     h\<lparr>yielded := ys @ yielded h, warned := ws @ warned h, cancels := cs @ cancels h\<rparr>"

fun futures_handler_loop ::
  "(nat \<Rightarrow> 'v fut) \<Rightarrow> int option \<Rightarrow> nat list \<Rightarrow> wait_event list \<Rightarrow> nat list \<Rightarrow> nat list \<Rightarrow>
     'v handled option" where
  "futures_handler_loop res timeout running_final [] futures cancelled =
     (if futures = [] then Some (finalise running_final [] None)
      else
        (case timeout of
           None \<Rightarrow> None
         | Some t \<Rightarrow>
             Some (emit [] [NoFinishedJobs t (length futures)] []
                     (finalise running_final futures None))))"
| "futures_handler_loop res timeout running_final (Completed ds # sched) futures cancelled =
     (if futures = [] then Some (finalise running_final [] None)
      else
        (let done = filter (\<lambda>j. j \<in> set futures) (remdups ds);
             not_done = filter (\<lambda>j. j \<notin> set done) futures
         in if length done = 0 then
              (case timeout of
                 None \<Rightarrow> futures_handler_loop res timeout running_final sched futures cancelled
               | Some t \<Rightarrow>
                   Some (emit [] [NoFinishedJobs t (length not_done)] []
                           (finalise running_final not_done None)))
            else
              (case drain res cancelled done of
                 (ys, Some e) \<Rightarrow> Some (emit ys [] [] (finalise running_final not_done (Some e)))
               | (ys, None) \<Rightarrow>
                   map_option (emit ys [] [])
                     (futures_handler_loop res timeout running_final sched not_done cancelled))))"
| "futures_handler_loop res timeout running_final (Interrupted running # sched) futures cancelled =
     (if futures = [] then Some (finalise running_final [] None)
      else
        (let n_running = length (filter (\<lambda>j. j \<in> set running) futures)
         in map_option (emit [] [EarlyStop (length futures - n_running) n_running] futures)
              (futures_handler_loop res timeout running_final sched futures
                 (cancelled @ filter (\<lambda>j. j \<notin> set running) futures))))"

definition futures_handler ::
  "(nat \<Rightarrow> 'v fut) \<Rightarrow> int option \<Rightarrow> nat list \<Rightarrow> wait_event list \<Rightarrow> nat list \<Rightarrow> 'v handled option" where
  "futures_handler res timeout running_final sched futures =
     futures_handler_loop res timeout running_final sched (remdups futures) []"

section \<open>The in-core executors\<close>

text \<open>
  An executor returns the accumulated value (or the exception) and the items the
  function was called on (\<open>iterative_executor\<close>) or submitted for (\<open>futures_executor\<close>).
  The progress bar is left out. \<open>futures_executor\<close> takes \<^verbatim>\<open>compression\<close> and
  \<^verbatim>\<open>tailtimeout\<close> as arguments (their defaults in the source are 1 and \<^verbatim>\<open>None\<close>), and
  the environment of the completion handler; the pool itself is not modelled.
\<close>

definition iterative_executor ::
  "('a pyval \<Rightarrow> 'a pyval \<Rightarrow> exn + 'a pyval) \<Rightarrow> 'i list \<Rightarrow> ('i \<Rightarrow> exn + 'a pyval) \<Rightarrow> 'a pyval \<Rightarrow>
     (exn + 'a pyval) \<times> 'i list" where
  "iterative_executor add items function accumulator =
     (if length items = 0 then (Inr accumulator, [])
      else accumulate add function items accumulator)"

definition gen_items :: "'v handled \<Rightarrow> (exn + 'v) list" where
  "gen_items h = map Inr (yielded h) @ (case raised h of None \<Rightarrow> [] | Some e \<Rightarrow> [Inl e])"

definition futures_executor ::
  "'a codec \<Rightarrow> ('a pyval \<Rightarrow> 'a pyval \<Rightarrow> exn + 'a pyval) \<Rightarrow> nat list \<Rightarrow> wait_event list \<Rightarrow>
     'i list \<Rightarrow> ('i \<Rightarrow> exn + 'a pyval) \<Rightarrow> 'a pyval \<Rightarrow> int option \<Rightarrow> int option \<Rightarrow>
     ((exn + 'a pyval) \<times> 'i list) option" where
  "futures_executor c add running_final sched items function accumulator clevel tailtimeout =
     (if length items = 0 then Some (Inr accumulator, [])
      else
        (let function' = (case clevel of None \<Rightarrow> function
                          | Some level \<Rightarrow> compression_wrapper c level function);
             res = (\<lambda>j. case function' (items ! j) of Inl e \<Rightarrow> Done_exn e | Inr v \<Rightarrow> Done_ok v)
         in case futures_handler res tailtimeout running_final sched [0..<length items] of
              None \<Rightarrow> None
            | Some h \<Rightarrow>
                Some (fst (accumulate add
                             (\<lambda>x. case x of Inl e \<Rightarrow> Inl e
                                  | Inr v \<Rightarrow> (case clevel of None \<Rightarrow> Inr v | Some level \<Rightarrow> decompress c v))
                             (gen_items h) accumulator),
                      items)))"

section \<open>The unit of work: \<^verbatim>\<open>_work_function\<close>\<close>

text \<open>
  Reading the file and running the caller's processor are the environment: \<open>env k\<close> is
  what attempt number \<open>k\<close> (from 0) meets. \<open>OpenFails e\<close>: opening the file raises;
  \<open>EventsFail e\<close>: building the events raises; \<open>ProcessFails e\<close>:
  \<^verbatim>\<open>processor_instance.process(events)\<close> raises (\<open>e\<close> carries the file trace the source
  appends, its type kept); \<open>Yields out metrics late\<close>: \<^verbatim>\<open>process\<close> returns \<open>out\<close>,
  \<open>metrics\<close> is the dictionary of metrics, and \<open>late\<close> is an exception raised after that
  (collecting the metrics, closing the file), if any. The options \<^verbatim>\<open>mmap\<close>,
  \<^verbatim>\<open>cachestrategy\<close>, \<^verbatim>\<open>xrootdtimeout\<close> and \<^verbatim>\<open>format\<close> only reach the file reader, and the
  unpacking of the processor instance is left out.
\<close>

datatype schema = NoSchema | SchemaClass | NotASchema

datatype 'a attempt =
    OpenFails exn
  | EventsFail exn
  | ProcessFails exn
  | Yields "'a pyval" "'a pyval" "exn option"

record work_cfg =
  savemetrics :: bool
  schema :: schema
  skipbadfiles :: bool
  retries :: int
  use_dataframes :: bool

datatype 'a body = Returns "'a pyval" | Raises exn

text \<open>
  The body of the \<^verbatim>\<open>try\<close>: its outcome, and the binding of the local variable
  \<^verbatim>\<open>out\<close> after it (\<open>None\<close>: not bound).
\<close>

definition try_body ::
  "work_cfg \<Rightarrow> 'a attempt \<Rightarrow> 'a pyval option \<Rightarrow> 'a body \<times> 'a pyval option" where
  "try_body cfg att out =
     (case att of
        OpenFails e \<Rightarrow> (Raises e, out)
      | EventsFail e \<Rightarrow>
          if schema cfg = NotASchema
          then (Raises (ValueError ''Expected schema to derive from nanoevents.BaseSchema''), out)
          else (Raises e, out)
      | ProcessFails e \<Rightarrow>
          if schema cfg = NotASchema
          then (Raises (ValueError ''Expected schema to derive from nanoevents.BaseSchema''), out)
          else (Raises e, out)
      | Yields v metrics late \<Rightarrow>
          if schema cfg = NotASchema
          then (Raises (ValueError ''Expected schema to derive from nanoevents.BaseSchema''), out)
          else if v = PyNone
          then (Raises (ValueError ''Output of process() should not be None.''), Some v)
          else
            (case late of
               Some e \<Rightarrow> (Raises e, Some v)
             | None \<Rightarrow>
                 (Returns (if use_dataframes cfg then v
                           else if savemetrics cfg then Dict [(''out'', v), (''metrics'', metrics)]
                           else Dict [(''out'', v)]),
                  Some v)))"

text \<open>
  The retry loop. The result is what the function returns or raises, the warnings, and
  the number of attempts made. \<^verbatim>\<open>return {"out": out}\<close> in the \<^verbatim>\<open>OSError\<close> clause
  reads \<^verbatim>\<open>out\<close>, which raises UnboundLocalError when no attempt has bound it; falling
  out of the loop returns \<^verbatim>\<open>None\<close>.
\<close>

function work_loop ::
  "work_cfg \<Rightarrow> string \<Rightarrow> (nat \<Rightarrow> 'a attempt) \<Rightarrow> int \<Rightarrow> 'a pyval option \<Rightarrow> warning list \<Rightarrow>
     (exn + 'a pyval) \<times> warning list \<times> nat" where
  "work_loop cfg fname env retry_count out ws =
     (if retry_count \<le> retries cfg then
        (case try_body cfg (env (nat retry_count)) out of
           (Returns v, out') \<Rightarrow> (Inr v, ws, nat retry_count + 1)
         | (Raises e, out') \<Rightarrow>
             (case classify e of
                IsOSError msg \<Rightarrow>
                  if \<not> skipbadfiles cfg \<or> str_contains ''Auth failed'' msg
                  then (Inl e, ws, nat retry_count + 1)
                  else if \<not> use_dataframes cfg
                  then ((case out' of
                           None \<Rightarrow> Inl (UnboundLocalError ''out'')
                         | Some v \<Rightarrow> Inr (Dict [(''out'', v)])),
                        ws @ [bad_file_warning fname (retries cfg) retry_count],
                        nat retry_count + 1)
                  else work_loop cfg fname env (retry_count + 1) out'
                         (ws @ [bad_file_warning fname (retries cfg) retry_count])
              | IsException \<Rightarrow>
                  if retries cfg = retry_count then (Inl e, ws, nat retry_count + 1)
                  else work_loop cfg fname env (retry_count + 1) out'
                         (ws @ [WillRetry (retry_count + 1) (retries cfg + 1)])
              | IsBaseException \<Rightarrow> (Inl e, ws, nat retry_count + 1)))
      else (Inr PyNone, ws, nat retry_count))"
  by pat_completeness auto
termination
  by (relation "measure (\<lambda>(cfg, fname, env, retry_count, out, ws). nat (retries cfg + 1 - retry_count))")
     auto

definition work_function ::
  "work_cfg \<Rightarrow> WorkItem \<Rightarrow> (nat \<Rightarrow> 'a attempt) \<Rightarrow> (exn + 'a pyval) \<times> warning list \<times> nat" where
  "work_function cfg item env = work_loop cfg (filename item) env 0 None []"

section \<open>The metadata pass: \<^verbatim>\<open>_get_metadata\<close>, \<^verbatim>\<open>_preprocess_fileset\<close>, \<^verbatim>\<open>_filter_badfiles\<close>\<close>

text \<open>
  \<^verbatim>\<open>_get_metadata\<close>. Opening the file is the environment: \<open>env k\<close> is what attempt \<open>k\<close>
  meets, an exception or the number of entries, the file's uuid and the cluster
  boundaries. The loop is the one of \<open>work_loop\<close> without a return in the
  \<^verbatim>\<open>OSError\<close> clause; when the attempts are used up the empty set is returned.
\<close>

function get_metadata_loop ::
  "bool \<Rightarrow> int \<Rightarrow> bool \<Rightarrow> FileMeta \<Rightarrow> (nat \<Rightarrow> exn + int \<times> mval \<times> int list) \<Rightarrow> int \<Rightarrow>
     warning list \<Rightarrow> (exn + FileMeta list) \<times> warning list \<times> nat" where
  "get_metadata_loop skip n_retries align item env retry_count ws =
     (if retry_count \<le> n_retries then
        (case env (nat retry_count) of
           Inr (num_entries, fUUID, offsets) \<Rightarrow>
             (let md0 = (case metadata item of None \<Rightarrow> [] | Some m \<Rightarrow> m);
                  md1 = setitem (setitem md0 ''numentries'' (IntV num_entries)) ''uuid'' fUUID;
                  md2 = (if align then setitem md1 ''clusters'' (ListV offsets) else md1)
              in (Inr [item\<lparr>metadata := Some md2\<rparr>], ws, nat retry_count + 1))
         | Inl e \<Rightarrow>
             (case classify e of
                IsOSError msg \<Rightarrow>
                  if \<not> skip \<or> str_contains ''Auth failed'' msg
                  then (Inl e, ws, nat retry_count + 1)
                  else get_metadata_loop skip n_retries align item env (retry_count + 1)
                         (ws @ [bad_file_warning (filename item) n_retries retry_count])
              | IsException \<Rightarrow>
                  if n_retries = retry_count then (Inl e, ws, nat retry_count + 1)
                  else get_metadata_loop skip n_retries align item env (retry_count + 1)
                         (ws @ [WillRetry (retry_count + 1) (n_retries + 1)])
              | IsBaseException \<Rightarrow> (Inl e, ws, nat retry_count + 1)))
      else (Inr [], ws, nat retry_count))"
  by pat_completeness auto
termination
  by (relation "measure (\<lambda>(skip, n_retries, align, item, env, retry_count, ws).
                  nat (n_retries + 1 - retry_count))") auto

definition get_metadata ::
  "FileMeta \<Rightarrow> (nat \<Rightarrow> exn + int \<times> mval \<times> int list) \<Rightarrow> bool \<Rightarrow> int \<Rightarrow> bool \<Rightarrow>
     (exn + FileMeta list) \<times> warning list \<times> nat" where
  "get_metadata item env skip n_retries align = get_metadata_loop skip n_retries align item env 0 []"

text \<open>
  The metadata cache is keyed by the identity of a descriptor, its file name and tree
  name; its bound and eviction are not modelled. \<^verbatim>\<open>FileMeta.maybe_populate(cache)\<close>:
\<close>

type_synonym cache = "((string \<times> string) \<times> metadata) list"

definition maybe_populate :: "cache \<Rightarrow> FileMeta \<Rightarrow> FileMeta" where
  "maybe_populate c self =
     (if c \<noteq> [] \<and> map_of c (filename self, treename self) \<noteq> None
      then self\<lparr>metadata := map_of c (filename self, treename self)\<rparr>
      else self)"

definition cache_set :: "cache \<Rightarrow> FileMeta \<Rightarrow> cache" where
  "cache_set c item =
     (case metadata item of
        None \<Rightarrow> c
      | Some md \<Rightarrow> ((filename item, treename item), md) # c)"

text \<open>
  The items an executor is given are file descriptors (the metadata pass) or work
  units (the main pass). An executor is a callable: it takes the items, the function,
  the seed and the keyword arguments the in-core executors read, and returns the
  result with the items the function was called on, or does not return.
\<close>

datatype item = FileItem FileMeta | UnitItem WorkItem

record exe_kwargs =
  kw_compression :: "int option"
  kw_tailtimeout :: "int option"

type_synonym 'a executor =
  "item list \<Rightarrow> (item \<Rightarrow> exn + 'a pyval) \<Rightarrow> 'a pyval \<Rightarrow> exe_kwargs \<Rightarrow>
     ((exn + 'a pyval) \<times> item list) option"

text \<open>\<^verbatim>\<open>set(...)\<close> of descriptors: one of each identity, the first met.\<close>

fun distinct_files :: "FileMeta list \<Rightarrow> (string \<times> string) list \<Rightarrow> FileMeta list" where
  "distinct_files [] seen = []"
| "distinct_files (f # fs) seen =
     (if (filename f, treename f) \<in> set seen then distinct_files fs seen
      else f # distinct_files fs ((filename f, treename f) # seen))"

text \<open>The second branch of \<^verbatim>\<open>_preprocess_fileset\<close>: one file after the other, in this thread.\<close>

fun preprocess_each ::
  "FileMeta list \<Rightarrow> (FileMeta \<Rightarrow> exn + 'a pyval) \<Rightarrow> cache \<Rightarrow> bool \<Rightarrow> bool \<Rightarrow>
     exn + FileMeta list \<times> cache" where
  "preprocess_each [] metadata_fetcher c align skip = Inr ([], c)"
| "preprocess_each (filemeta # fileset) metadata_fetcher c align skip =
     (if skip \<and> \<not> populated filemeta align then
        (case preprocess_each fileset metadata_fetcher c align skip of
           Inl e \<Rightarrow> Inl e
         | Inr (fs, c') \<Rightarrow> Inr (filemeta # fs, c'))
      else if \<not> populated filemeta align then
        (case metadata_fetcher filemeta of
           Inl e \<Rightarrow> Inl e
         | Inr (MetaSet []) \<Rightarrow> Inl (KeyError ''pop from an empty set'')
         | Inr (MetaSet (got # _)) \<Rightarrow>
             (let filemeta' = filemeta\<lparr>metadata := metadata got\<rparr>
              in case preprocess_each fileset metadata_fetcher (cache_set c filemeta') align skip of
                   Inl e \<Rightarrow> Inl e
                 | Inr (fs, c') \<Rightarrow> Inr (filemeta' # fs, c'))
         | Inr _ \<Rightarrow> Inl (AttributeError ''pop''))
      else
        (case preprocess_each fileset metadata_fetcher c align skip of
           Inl e \<Rightarrow> Inl e
         | Inr (fs, c') \<Rightarrow> Inr (filemeta # fs, c')))"

definition preprocess_fileset ::
  "'a executor \<Rightarrow> FileMeta list \<Rightarrow> (FileMeta \<Rightarrow> exn + 'a pyval) \<Rightarrow> cache \<Rightarrow> bool \<Rightarrow>
     int option \<Rightarrow> bool \<Rightarrow> (exn + FileMeta list \<times> cache) option" where
  "preprocess_fileset pre_executor fileset metadata_fetcher c align maxchunks skip =
     (case maxchunks of
        None \<Rightarrow>
          (let to_get = distinct_files (filter (\<lambda>f. \<not> populated f align) fileset) []
           in if length to_get > 0 then
                (case pre_executor (map FileItem to_get)
                        (\<lambda>i. case i of FileItem f \<Rightarrow> metadata_fetcher f
                             | UnitItem _ \<Rightarrow> Inl (AttributeError ''metadata''))
                        (MetaSet []) \<lparr>kw_compression = None, kw_tailtimeout = None\<rparr> of
                   None \<Rightarrow> None
                 | Some (Inl e, _) \<Rightarrow> Some (Inl e)
                 | Some (Inr (MetaSet out), _) \<Rightarrow>
                     (let c' = foldl cache_set c (rev out)
                      in Some (Inr (map (maybe_populate c') fileset, c')))
                 | Some (Inr PyNone, _) \<Rightarrow> Some (Inr (map (maybe_populate c) fileset, c))
                 | Some (Inr _, _) \<Rightarrow> Some (Inl (AttributeError ''pop'')))
              else Some (Inr (fileset, c)))
      | Some m \<Rightarrow> Some (preprocess_each fileset metadata_fetcher c align skip))"

fun filter_badfiles :: "FileMeta list \<Rightarrow> bool \<Rightarrow> bool \<Rightarrow> exn + FileMeta list" where
  "filter_badfiles [] align skip = Inr []"
| "filter_badfiles (filemeta # fileset) align skip =
     (if populated filemeta align then
        (case filter_badfiles fileset align skip of
           Inl e \<Rightarrow> Inl e
         | Inr final \<Rightarrow> Inr (filemeta # final))
      else if \<not> skip then Inl (RuntimeError ''Metadata for file {} could not be accessed.'')
      else filter_badfiles fileset align skip)"

section \<open>The orchestrator: \<^verbatim>\<open>_normalize_fileset\<close> and \<^verbatim>\<open>run_uproot_job\<close>\<close>

text \<open>
  The file set argument: a mapping from dataset names to a list of file names or to a
  dictionary (its keys \<^verbatim>\<open>treename\<close>, \<^verbatim>\<open>files\<close> and \<^verbatim>\<open>metadata\<close>, each present or
  not), the path of a JSON file holding such a mapping, or something else.
\<close>

datatype filelist =
    FileList "string list"
  | FileDict "string option" "string list option" "metadata option"
  | FileOther

datatype fileset_arg =
    FilesetMapping "(string \<times> filelist) list"
  | FilesetPath string
  | FilesetOther

definition file_entries :: "string \<Rightarrow> string list \<Rightarrow> string \<Rightarrow> metadata option \<Rightarrow> FileMeta list" where
  "file_entries ds names local_treename user_meta =
     map (\<lambda>name. \<lparr>dataset = ds, filename = name, treename = local_treename,
                  metadata = user_meta\<rparr>) names"

fun normalize_entries :: "(string \<times> filelist) list \<Rightarrow> string option \<Rightarrow> exn + FileMeta list" where
  "normalize_entries [] tree = Inr []"
| "normalize_entries ((ds, fl) # rest) tree =
     and_then
       (case fl of
          FileDict tn files user_meta \<Rightarrow>
            if (case user_meta of
                  None \<Rightarrow> False
                | Some um \<Rightarrow> \<exists>rkey\<in>set PROTECTED_NAMES. rkey \<in> fst ` set um)
            then Inl (ValueError ''Reserved word in metadata section of fileset dictionary'')
            else
              (case (tn, tree) of
                 (None, None) \<Rightarrow>
                   Inl (ValueError ''treename must be specified if the fileset does not contain tree names'')
               | (Some local_treename, _) \<Rightarrow>
                   (case files of
                      None \<Rightarrow> Inl (KeyError ''files'')
                    | Some names \<Rightarrow> Inr (file_entries ds names local_treename user_meta))
               | (None, Some local_treename) \<Rightarrow>
                   (case files of
                      None \<Rightarrow> Inl (KeyError ''files'')
                    | Some names \<Rightarrow> Inr (file_entries ds names local_treename user_meta)))
        | FileList names \<Rightarrow>
            (case tree of
               None \<Rightarrow>
                 Inl (ValueError ''treename must be specified if the fileset does not contain tree names'')
             | Some local_treename \<Rightarrow> Inr (file_entries ds names local_treename None))
        | FileOther \<Rightarrow> Inl (ValueError ''list of filenames in fileset must be a list or a dict''))
       (\<lambda>fs. and_then (normalize_entries rest tree) (\<lambda>fs'. Inr (fs @ fs')))"

text \<open>
  What the job meets outside the program: the JSON files, the input files as the
  metadata pass opens them, the units as \<open>work_function\<close> processes them, and the
  process-wide default cache.
\<close>

record 'a world =
  load_json :: "string \<Rightarrow> exn + (string \<times> filelist) list"
  open_tree :: "FileMeta \<Rightarrow> nat \<Rightarrow> exn + int \<times> mval \<times> int list"
  attempts :: "WorkItem \<Rightarrow> nat \<Rightarrow> 'a attempt"
  DEFAULT_METADATA_CACHE :: cache

definition normalize_fileset :: "'a world \<Rightarrow> fileset_arg \<Rightarrow> string option \<Rightarrow> exn + FileMeta list" where
  "normalize_fileset world fileset tree =
     (case fileset of
        FilesetPath path \<Rightarrow> and_then (load_json world path) (\<lambda>m. normalize_entries m tree)
      | FilesetMapping m \<Rightarrow> normalize_entries m tree
      | FilesetOther \<Rightarrow> Inl (ValueError ''Expected fileset to be a path string or mapping''))"

text \<open>
  The processor instance (its \<^verbatim>\<open>postprocess\<close> hook, which may raise), which executor
  the callable is (the source compares it with \<^verbatim>\<open>dask_executor\<close> and
  \<^verbatim>\<open>work_queue_executor\<close>), and the keys of \<^verbatim>\<open>executor_args\<close> that the job reads, with
  their defaults filled in; \<open>arg_flatten\<close> and \<open>arg_nano\<close> say that the key is present.
\<close>

datatype 'a processor = NotAProcessor | Processor "'a pyval \<Rightarrow> exn option"

datatype executor_kind = Iterative | Futures | Dask | Parsl | WorkQueue | OtherExecutor

record job_args =
  arg_skipbadfiles :: bool
  arg_retries :: int
  arg_align_clusters :: bool
  arg_savemetrics :: bool
  arg_schema :: schema
  arg_use_dataframes :: bool
  arg_flatten :: bool
  arg_nano :: bool
  arg_kwargs :: exe_kwargs

datatype 'a job_result = Out "'a pyval" | OutMetrics "'a pyval" "'a pyval"

text \<open>
  The end of \<^verbatim>\<open>run_uproot_job\<close>, from the call of the executor on: the seed is
  \<^verbatim>\<open>None\<close>, and the result is subscripted with \<^verbatim>\<open>"out"\<close>.
\<close>

definition dispatch ::
  "'a processor \<Rightarrow> 'a executor \<Rightarrow> exe_kwargs \<Rightarrow> bool \<Rightarrow> bool \<Rightarrow> WorkItem list \<Rightarrow>
     (item \<Rightarrow> exn + 'a pyval) \<Rightarrow> ((exn + 'a job_result) \<times> item list) option" where
  "dispatch processor_instance executor kwargs savemetrics_on use_df units closure =
     (case executor (map UnitItem units) closure PyNone kwargs of
        None \<Rightarrow> None
      | Some (Inl e, called) \<Rightarrow> Some (Inl e, called)
      | Some (Inr wrapped_out, called) \<Rightarrow>
          Some
            (and_then (getitem wrapped_out ''out'')
               (\<lambda>out.
                  case (case processor_instance of
                          Processor postprocess \<Rightarrow> postprocess out
                        | NotAProcessor \<Rightarrow> Some (AttributeError ''postprocess'')) of
                    Some e \<Rightarrow> Inl e
                  | None \<Rightarrow>
                      if savemetrics_on \<and> \<not> use_df then
                        and_then (getitem wrapped_out ''metrics'')
                          (\<lambda>metrics.
                             case metrics of
                               Dict d \<Rightarrow>
                                 Inr (OutMetrics out
                                        (Dict (setitem d ''chunks'' (Num (int (length units))))))
                             | _ \<Rightarrow> Inl (TypeError ''object does not support item assignment''))
                      else Inr (Out out)),
             called))"

text \<open>
  \<^verbatim>\<open>run_uproot_job\<close>, statement by statement. The result is what the job returns or
  raises, with the items the unit function was called on; \<open>None\<close> when an executor
  does not return. Left out: \<^verbatim>\<open>pre_args\<close> (the metadata pass overrides the two keys
  the in-core executors read), the warning that resets \<^verbatim>\<open>use_dataframes\<close>, the
  labels and counts passed on for the progress bar, and the compression of the
  processor instance. With \<^verbatim>\<open>dynamic_chunksize\<close> the source hands the generator itself
  to the Work Queue executor, which is outside the repository; here the plan is taken
  with nothing sent.
\<close>

definition run_uproot_job ::
  "'a world \<Rightarrow> fileset_arg \<Rightarrow> string option \<Rightarrow> 'a processor \<Rightarrow> executor_kind \<Rightarrow> 'a executor \<Rightarrow>
     job_args \<Rightarrow> 'a executor option \<Rightarrow> int \<Rightarrow> int option \<Rightarrow> cache option \<Rightarrow> bool \<Rightarrow>
     ((exn + 'a job_result) \<times> item list) option" where
  "run_uproot_job world fileset tree processor_instance kind executor executor_args pre_executor
       chunksize maxchunks metadata_cache dynamic_chunksize =
     (if fileset = FilesetOther then
        Some (Inl (ValueError ''Expected fileset to be a mapping dataset: list(files) or filename''), [])
      else if (case processor_instance of NotAProcessor \<Rightarrow> True | Processor _ \<Rightarrow> False) then
        Some (Inl (ValueError ''Expected processor_instance to derive from ProcessorABC''), [])
      else
        (let pre = (case pre_executor of None \<Rightarrow> executor | Some p \<Rightarrow> p);
             c = (case metadata_cache of None \<Rightarrow> DEFAULT_METADATA_CACHE world | Some mc \<Rightarrow> mc)
         in case normalize_fileset world fileset tree of
              Inl e \<Rightarrow> Some (Inl e, [])
            | Inr fs0 \<Rightarrow>
                (let fs1 = map (maybe_populate c) fs0;
                     skip = arg_skipbadfiles executor_args;
                     n_retries = (if kind = Dask then 0 else arg_retries executor_args);
                     align = arg_align_clusters executor_args
                 in if align \<and> dynamic_chunksize then
                      Some (Inl (RuntimeError
                        ''align_clusters and dynamic_chunksize cannot be used simultaneously''), [])
                    else if (case maxchunks of None \<Rightarrow> False | Some m \<Rightarrow> m \<noteq> 0) \<and> dynamic_chunksize then
                      Some (Inl (RuntimeError
                        ''maxchunks and dynamic_chunksize cannot be used simultaneously''), [])
                    else if dynamic_chunksize \<and> kind \<noteq> WorkQueue then
                      Some (Inl (RuntimeError
                        ''dynamic_chunksize currently only supported by the work_queue_executor''), [])
                    else
                      (case preprocess_fileset pre fs1
                              (\<lambda>f. case fst (get_metadata f (open_tree world f) skip n_retries align) of
                                     Inl e \<Rightarrow> Inl e
                                   | Inr got \<Rightarrow> Inr (MetaSet got))
                              c align maxchunks skip of
                         None \<Rightarrow> None
                       | Some (Inl e) \<Rightarrow> Some (Inl e, [])
                       | Some (Inr (fs2, c')) \<Rightarrow>
                           (case filter_badfiles fs2 align skip of
                              Inl e \<Rightarrow> Some (Inl e, [])
                            | Inr fs3 \<Rightarrow>
                                if arg_flatten executor_args then
                                  Some (Inl (ValueError ''Executor argument flatten is deprecated''), [])
                                else if arg_nano executor_args then
                                  Some (Inl (ValueError ''Awkward0 NanoEvents no longer supported.''), [])
                                else
                                  (let use_df = (kind = Dask \<and> arg_use_dataframes executor_args);
                                       cfg = \<lparr>savemetrics = arg_savemetrics executor_args,
                                              schema = arg_schema executor_args,
                                              skipbadfiles = skip, retries = n_retries,
                                              use_dataframes = use_df\<rparr>
                                   in case chunk_generator (rev fs3) chunksize align maxchunks
                                             dynamic_chunksize [] of
                                        None \<Rightarrow> None
                                      | Some run \<Rightarrow>
                                          (case list_of_gen run of
                                             Inl e \<Rightarrow> Some (Inl e, [])
                                           | Inr units \<Rightarrow>
                                               dispatch processor_instance executor
                                                 (arg_kwargs executor_args)
                                                 (arg_savemetrics executor_args) use_df units
                                                 (\<lambda>i. case i of
                                                        UnitItem w \<Rightarrow> fst (work_function cfg w (attempts world w))
                                                      | FileItem _ \<Rightarrow> Inl (AttributeError ''filename'')))))))))"

text \<open>The two in-core executors as the callable of a job.\<close>

definition iterative_callable ::
  "('a pyval \<Rightarrow> 'a pyval \<Rightarrow> exn + 'a pyval) \<Rightarrow> 'a executor" where
  "iterative_callable add items function accumulator kwargs =
     Some (iterative_executor add items function accumulator)"

definition futures_callable ::
  "'a codec \<Rightarrow> ('a pyval \<Rightarrow> 'a pyval \<Rightarrow> exn + 'a pyval) \<Rightarrow> nat list \<Rightarrow> wait_event list \<Rightarrow>
     'a executor" where
  "futures_callable c add running_final sched items function accumulator kwargs =
     futures_executor c add running_final sched items function accumulator
       (kw_compression kwargs) (kw_tailtimeout kwargs)"

chapter \<open>Notions for the properties\<close>

section \<open>Properties of a plan\<close>

text \<open>
  \<open>span\<close> is the entry range of a unit. \<open>tiles_from s E ps\<close> says that the ranges
  \<open>ps\<close>, in their order, are non-empty, each starts where the one before stopped, the
  first starts at \<open>s\<close>, and the last stops at \<open>E\<close> (no range at all when \<open>E \<le> s\<close>).
  \<open>covering ps i\<close> counts the ranges that hold the entry \<open>i\<close>.
\<close>

definition span :: "WorkItem \<Rightarrow> int \<times> int" where
  "span w = (entrystart w, entrystop w)"

fun tiles_from :: "int \<Rightarrow> int \<Rightarrow> (int \<times> int) list \<Rightarrow> bool" where
  "tiles_from s E [] = (E \<le> s)"
| "tiles_from s E (p # ps) =
     (fst p = s \<and> fst p < snd p \<and> snd p \<le> E \<and> tiles_from (snd p) E ps)"

definition covering :: "(int \<times> int) list \<Rightarrow> int \<Rightarrow> nat" where
  "covering ps i = length (filter (\<lambda>p. fst p \<le> i \<and> i < snd p) ps)"

definition units_of_dataset :: "string \<Rightarrow> WorkItem list \<Rightarrow> WorkItem list" where
  "units_of_dataset d ws = filter (\<lambda>w. dataset w = d) ws"

section \<open>Example inputs\<close>

definition example_file :: "string \<Rightarrow> int \<Rightarrow> FileMeta" where
  "example_file name n =
     \<lparr>dataset = ''ZJets'', filename = name, treename = ''Events'',
      metadata = Some [(''numentries'', IntV n), (''uuid'', BytesV name)]\<rparr>"

definition example_clustered :: "string \<Rightarrow> int list \<Rightarrow> FileMeta" where
  "example_clustered name cl =
     \<lparr>dataset = ''ZJets'', filename = name, treename = ''Events'',
      metadata = Some [(''numentries'', IntV (last cl)), (''uuid'', BytesV name),
                       (''clusters'', ListV cl)]\<rparr>"

text \<open>
  The invariant of the capped loop: the counter of every dataset is the number of its
  units collected so far, and none is above the cap.
\<close>

definition counted :: "int \<Rightarrow> WorkItem list \<times> (string \<Rightarrow> int) \<Rightarrow> bool" where
  "counted m st \<longleftrightarrow>
     (\<forall>d. snd st d = int (length (units_of_dataset d (fst st)))) \<and> (\<forall>d. snd st d \<le> m)"

section \<open>What the codec libraries are relied on for\<close>

text \<open>
  \<open>roundtrips c x\<close>: the libraries restore \<open>x\<close>, that is, \<^verbatim>\<open>pickle.loads\<close> undoes
  \<^verbatim>\<open>pickle.dumps\<close> on \<open>x\<close> and \<^verbatim>\<open>lz4.frame.decompress\<close> undoes
  \<^verbatim>\<open>lz4.frame.compress\<close> on the pickled bytes at every level.
\<close>

definition roundtrips :: "'a codec \<Rightarrow> 'a pyval \<Rightarrow> bool" where
  "roundtrips c x \<longleftrightarrow>
     pickle_loads c (pickle_dumps c x) = Inr x \<and>
     (\<forall>level. lz4f_decompress c (lz4f_compress c (pickle_dumps c x) level) = Inr (pickle_dumps c x))"

section \<open>More example inputs\<close>

text \<open>
  A small codec and merge operation to run the model on: integers are pickled in unary,
  the compressor puts one byte in front, and the merge adds integers.
\<close>

definition toy_codec :: "unit codec" where
  "toy_codec =
     \<lparr>pickle_dumps = (\<lambda>x. case x of Num n \<Rightarrow> replicate (nat n) (CHR ''i'') | _ \<Rightarrow> ''?''),
      pickle_loads = (\<lambda>s. Inr (Num (int (length s)))),
      lz4f_compress = (\<lambda>b level. CHR ''z'' # b),
      lz4f_decompress = (\<lambda>b. case b of [] \<Rightarrow> Inl (RuntimeError ''LZ4F'') | _ # raw \<Rightarrow> Inr raw)\<rparr>"

definition toy_add :: "unit pyval \<Rightarrow> unit pyval \<Rightarrow> exn + unit pyval" where
  "toy_add x y =
     (case (x, y) of
        (Num a, Num b) \<Rightarrow> Inr (Num (a + b))
      | _ \<Rightarrow> Inl (TypeError ''unsupported operand''))"

definition example_unit :: WorkItem where
  "example_unit =
     \<lparr>dataset = ''ZJets'', filename = ''a.root'', treename = ''Events'',
      entrystart = 0, entrystop = 125000, fileuuid = BytesV ''a.root'', usermeta = []\<rparr>"

definition example_world :: "unit world" where
  "example_world =
     \<lparr>load_json = (\<lambda>path. Inl (OSError ''No such file or directory'')),
      open_tree = (\<lambda>f k. Inr (250000, BytesV (filename f), [0, 250000])),
      attempts = (\<lambda>w k. Yields (Num (entrystop w - entrystart w)) (Dict []) None),
      DEFAULT_METADATA_CACHE = []\<rparr>"

definition example_args :: job_args where
  "example_args =
     \<lparr>arg_skipbadfiles = False, arg_retries = 0, arg_align_clusters = False,
      arg_savemetrics = False, arg_schema = SchemaClass, arg_use_dataframes = False,
      arg_flatten = False, arg_nano = False,
      arg_kwargs = \<lparr>kw_compression = Some 1, kw_tailtimeout = None\<rparr>\<rparr>"

definition dict_add :: "unit pyval \<Rightarrow> unit pyval \<Rightarrow> exn + unit pyval" where
  "dict_add x y =
     (case (x, y) of
        (Dict [(k, Num a)], Dict [(k', Num b)]) \<Rightarrow>
          if k = k' then Inr (Dict [(k, Num (a + b))]) else Inl (TypeError ''unsupported operand'')
      | (MetaSet a, MetaSet b) \<Rightarrow> Inr (MetaSet (a @ b))
      | _ \<Rightarrow> Inl (TypeError ''unsupported operand''))"

chapter \<open>Verified properties\<close>

section \<open>Double-precision division\<close>

text \<open>
  The rounding error of \<open>double_div\<close>, the range without overflow, and the entry counts
  for which the planner's two divisions lose nothing: below \<open>2 ^ 52\<close> the rounded
  quotient has the same \<^verbatim>\<open>round\<close> and the same \<^verbatim>\<open>math.ceil\<close> as the exact one.
\<close>

text \<open>Powers of two are evaluated on integers.\<close>

lemma pow2_code [code]:
  "pow2 k = (if 0 \<le> k then of_int (2 ^ nat k) else 1 / of_int (2 ^ nat (- k)))"
  by (simp add: pow2_def)

lemma pow2_powi: "pow2 k = 2 powi k"
proof (cases "0 \<le> k")
  case True
  then show ?thesis by (simp add: pow2_def power_int_def)
next
  case False
  have "inverse (2::rat) ^ nat (- k) = 1 / 2 ^ nat (- k)"
    by (simp add: power_one_over)
  then show ?thesis using False by (simp add: pow2_def power_int_def)
qed

lemma pow2_pos: "0 < pow2 k"
  by (simp add: pow2_def)

lemma pow2_add: "pow2 (a + b) = pow2 a * pow2 b"
  by (simp add: pow2_powi power_int_add)

lemma pow2_diff: "pow2 (a - b) = pow2 a / pow2 b"
  by (simp add: pow2_powi power_int_diff)

lemma pow2_nat: "0 \<le> k \<Longrightarrow> pow2 k = 2 ^ nat k"
  by (simp add: pow2_def)

lemma pow2_mono: "a \<le> b \<Longrightarrow> pow2 a \<le> pow2 b"
  by (simp add: pow2_powi power_int_increasing)

lemma pow2_less_cancel: "pow2 a < pow2 b \<Longrightarrow> a < b"
  using pow2_mono [of b a] by (cases "a < b") auto

lemma bitlen_rat_bounds:
  assumes "0 < a"
  shows "pow2 (bitlen a - 1) \<le> of_int a" and "of_int a < pow2 (bitlen a)"
proof -
  from bitlen_bounds [OF assms] have b: "2 ^ nat (bitlen a - 1) \<le> a" "a < 2 ^ nat (bitlen a)"
    by auto
  have ge: "1 \<le> bitlen a" using assms by (auto simp: bitlen_alt_def)
  have "pow2 (bitlen a - 1) = of_int (2 ^ nat (bitlen a - 1))" using ge by (simp add: pow2_nat)
  also have "\<dots> \<le> of_int a" using b(1) by (simp only: of_int_le_iff)
  finally show "pow2 (bitlen a - 1) \<le> of_int a" .
  have "(of_int a :: rat) < of_int (2 ^ nat (bitlen a))" using b(2) by (simp only: of_int_less_iff)
  also have "\<dots> = pow2 (bitlen a)" using ge by (simp add: pow2_nat)
  finally show "of_int a < pow2 (bitlen a)" .
qed

lemma ilog2_bounds:
  assumes "0 < a" and "0 < b"
  shows "pow2 (ilog2 a b) \<le> of_int a / of_int b" and "of_int a / of_int b < pow2 (ilog2 a b + 1)"
proof -
  let ?q = "of_int a / of_int b :: rat"
  let ?k = "bitlen a - bitlen b"
  have bpos: "(0::rat) < of_int b" using assms by simp
  have apos: "(0::rat) < of_int a" using assms by simp
  have up: "?q < pow2 (?k + 1)"
  proof -
    have "?q < pow2 (bitlen a) / of_int b"
      using bitlen_rat_bounds(2) [OF assms(1)] bpos by (simp add: divide_strict_right_mono)
    also have "\<dots> \<le> pow2 (bitlen a) / pow2 (bitlen b - 1)"
      using bitlen_rat_bounds(1) [OF assms(2)] pow2_pos [of "bitlen a"] pow2_pos [of "bitlen b - 1"]
      by (simp add: frac_le)
    also have "\<dots> = pow2 (?k + 1)" by (simp add: pow2_diff [symmetric] algebra_simps)
    finally show ?thesis .
  qed
  have lo: "pow2 (?k - 1) \<le> ?q"
  proof -
    have "pow2 (?k - 1) = pow2 (bitlen a - 1) / pow2 (bitlen b)"
      by (simp add: pow2_diff [symmetric] algebra_simps)
    also have "\<dots> \<le> of_int a / pow2 (bitlen b)"
      using bitlen_rat_bounds(1) [OF assms(1)] pow2_pos [of "bitlen b"]
      by (simp add: divide_right_mono)
    also have "\<dots> \<le> ?q"
      using bitlen_rat_bounds(2) [OF assms(2)] apos bpos by (simp add: frac_le)
    finally show ?thesis .
  qed
  show "pow2 (ilog2 a b) \<le> ?q" using lo by (simp add: ilog2_def Let_def)
  show "?q < pow2 (ilog2 a b + 1)" using up by (auto simp: ilog2_def Let_def not_le)
qed

lemma py_round_error: "\<bar>of_int (py_round x) - x\<bar> \<le> 1 / 2"
proof -
  have "of_int \<lfloor>x\<rfloor> \<le> x" "x < of_int \<lfloor>x\<rfloor> + 1" by linarith+
  then show ?thesis by (auto simp: py_round_def Let_def)
qed

lemma py_round_nonneg: "0 \<le> x \<Longrightarrow> 0 \<le> py_round x"
proof -
  assume "0 \<le> x"
  then have "0 \<le> \<lfloor>x\<rfloor>" by simp
  then show ?thesis by (auto simp: py_round_def Let_def)
qed

lemma py_round_small: "\<bar>x\<bar> < 1 / 2 \<Longrightarrow> py_round x = 0"
proof -
  assume a: "\<bar>x\<bar> < 1 / 2"
  have "\<bar>of_int (py_round x)\<bar> \<le> \<bar>of_int (py_round x) - x\<bar> + \<bar>x\<bar>" by linarith
  also have "\<dots> < 1" using py_round_error [of x] a by linarith
  finally have "\<bar>(of_int (py_round x) :: rat)\<bar> < 1" .
  then have "\<bar>py_round x\<bar> < 1" by (metis of_int_abs of_int_less_1_iff)
  then show ?thesis by simp
qed

text \<open>The rounding error of a quotient of positive integers.\<close>

lemma double_pos_error:
  assumes "0 < a" and "0 < b"
  shows "\<bar>double_pos a b - of_int a / of_int b\<bar> \<le> pow2 (max (ilog2 a b) (- 1022) - 53)"
proof -
  let ?q = "of_int a / of_int b :: rat"
  define ulp where "ulp = pow2 (max (ilog2 a b) (- 1022) - 52)"
  have up: "0 < ulp" by (simp add: ulp_def pow2_pos)
  have d: "double_pos a b = of_int (py_round (?q / ulp)) * ulp"
    by (simp add: double_pos_def ulp_def Let_def)
  have "double_pos a b - ?q = (of_int (py_round (?q / ulp)) - ?q / ulp) * ulp"
    using up by (simp add: d algebra_simps)
  then have "\<bar>double_pos a b - ?q\<bar> = \<bar>of_int (py_round (?q / ulp)) - ?q / ulp\<bar> * ulp"
    using up by (simp add: abs_mult)
  also have "\<dots> \<le> 1 / 2 * ulp"
    using py_round_error [of "?q / ulp"] up by (intro mult_right_mono) auto
  also have "\<dots> = pow2 (max (ilog2 a b) (- 1022) - 53)"
  proof -
    have "pow2 (max (ilog2 a b) (- 1022) - 52) = pow2 (max (ilog2 a b) (- 1022) - 53) * pow2 1"
      by (simp add: pow2_add [symmetric])
    then show ?thesis by (simp add: ulp_def pow2_def)
  qed
  finally show ?thesis .
qed

lemma double_pos_nonneg: "0 < a \<Longrightarrow> 0 < b \<Longrightarrow> 0 \<le> double_pos a b"
  by (simp add: double_pos_def Let_def pow2_pos py_round_nonneg less_imp_le)

lemma normal_exponent:
  assumes "0 < a" and "0 < b" and "pow2 (- 1022) \<le> of_int a / of_int b"
  shows "- 1022 \<le> ilog2 a b"
proof -
  have "pow2 (- 1022) < pow2 (ilog2 a b + 1)"
    using ilog2_bounds(2) [OF assms(1,2)] assms(3) by linarith
  from pow2_less_cancel [OF this] show ?thesis by simp
qed

text \<open>In the normal range the relative error is at most \<open>2 ^ (- 53)\<close>.\<close>

lemma double_pos_relative:
  assumes "0 < a" and "0 < b" and "pow2 (- 1022) \<le> of_int a / of_int b"
  shows "\<bar>double_pos a b - of_int a / of_int b\<bar> \<le> of_int a / of_int b * pow2 (- 53)"
proof -
  have e: "max (ilog2 a b) (- 1022) = ilog2 a b" using normal_exponent [OF assms] by simp
  have "\<bar>double_pos a b - of_int a / of_int b\<bar> \<le> pow2 (ilog2 a b - 53)"
    using double_pos_error [OF assms(1,2)] e by simp
  also have "\<dots> = pow2 (ilog2 a b) * pow2 (- 53)" by (simp add: pow2_add [symmetric])
  also have "\<dots> \<le> of_int a / of_int b * pow2 (- 53)"
    using ilog2_bounds(1) [OF assms(1,2)] pow2_pos [of "- 53"] by (intro mult_right_mono) auto
  finally show ?thesis .
qed

lemma pow2_m53_small: "pow2 (- 53) \<le> 1 / 2"
proof -
  have "pow2 (- 53) \<le> pow2 (- 1)" by (rule pow2_mono) simp
  then show ?thesis by (simp add: pow2_def)
qed

lemma double_pos_positive:
  assumes "0 < a" and "0 < b" and "pow2 (- 1022) \<le> of_int a / of_int b"
  shows "of_int a / of_int b / 2 \<le> double_pos a b"
proof -
  let ?q = "of_int a / of_int b :: rat"
  have q: "0 < ?q" using assms by simp
  have "?q * pow2 (- 53) \<le> ?q * (1 / 2)"
    using pow2_m53_small q by (intro mult_left_mono) auto
  then show ?thesis using double_pos_relative [OF assms] by (simp add: abs_le_iff)
qed

lemma double_pos_upper:
  assumes "0 < a" and "0 < b"
  shows "double_pos a b \<le> 2 * (of_int a / of_int b) + 1 / 4"
proof (cases "pow2 (- 1022) \<le> of_int a / of_int b")
  case True
  let ?q = "of_int a / of_int b :: rat"
  have q: "0 < ?q" using assms by simp
  have "?q * pow2 (- 53) \<le> ?q * (1 / 2)"
    using pow2_m53_small q by (intro mult_left_mono) auto
  then show ?thesis using double_pos_relative [OF assms True] q by (simp add: abs_le_iff)
next
  case False
  let ?q = "of_int a / of_int b :: rat"
  have lt: "?q < pow2 (- 1022)" using False by simp
  have "pow2 (ilog2 a b) < pow2 (- 1022)" using ilog2_bounds(1) [OF assms] lt by linarith
  from pow2_less_cancel [OF this] have e: "max (ilog2 a b) (- 1022) = - 1022" by simp
  have "\<bar>double_pos a b - ?q\<bar> \<le> pow2 (- 1075)"
    using double_pos_error [OF assms] e by simp
  moreover have "pow2 (- 1075) \<le> pow2 (- 2)" by (rule pow2_mono) simp
  moreover have "pow2 (- 2) = 1 / 4" by (simp add: pow2_def)
  moreover have "0 < ?q" using assms by simp
  ultimately show ?thesis by (simp add: abs_le_iff)
qed

lemma double_pos_tiny:
  assumes "0 < a" and "0 < b" and "of_int a / of_int b < pow2 (- 1022)"
  shows "double_pos a b < 1 / 2"
proof -
  let ?q = "of_int a / of_int b :: rat"
  have "pow2 (ilog2 a b) < pow2 (- 1022)" using ilog2_bounds(1) [OF assms(1,2)] assms(3) by linarith
  from pow2_less_cancel [OF this] have e: "max (ilog2 a b) (- 1022) = - 1022" by simp
  have "\<bar>double_pos a b - ?q\<bar> \<le> pow2 (- 1075)"
    using double_pos_error [OF assms(1,2)] e by simp
  moreover have "pow2 (- 1075) \<le> pow2 (- 3)" by (rule pow2_mono) simp
  moreover have "pow2 (- 1022) \<le> pow2 (- 3)" by (rule pow2_mono) simp
  moreover have "pow2 (- 3) = 1 / 8" by (simp add: pow2_def)
  ultimately show ?thesis using assms(3) by (simp add: abs_le_iff)
qed

lemma py_round_nonpos: "x \<le> 0 \<Longrightarrow> py_round x \<le> 0"
proof -
  assume "x \<le> 0"
  then have "(of_int (py_round x) :: rat) < 1" using py_round_error [of x] by linarith
  then have "py_round x < 1" by (simp only: of_int_less_1_iff)
  then show ?thesis by simp
qed

lemma double_div_pos: "0 < a \<Longrightarrow> 0 < b \<Longrightarrow> double_div a b = double_pos a b"
  by (simp add: double_div_def)

lemma double_div_neg: "0 < a \<Longrightarrow> b < 0 \<Longrightarrow> double_div a b = - double_pos a (- b)"
  by (simp add: double_div_def)

lemma double_div_abs:
  "a \<noteq> 0 \<Longrightarrow> b \<noteq> 0 \<Longrightarrow> \<bar>double_div a b\<bar> = double_pos \<bar>a\<bar> \<bar>b\<bar>"
proof -
  assume a: "a \<noteq> 0" and b: "b \<noteq> 0"
  have s: "\<bar>of_int (sgn a * sgn b) :: rat\<bar> = 1" using a b by (simp add: abs_mult sgn_if)
  have p: "0 \<le> double_pos \<bar>a\<bar> \<bar>b\<bar>" using a b by (intro double_pos_nonneg) auto
  have "double_div a b = of_int (sgn a * sgn b) * double_pos \<bar>a\<bar> \<bar>b\<bar>"
    using a b by (simp add: double_div_def)
  then have "\<bar>double_div a b\<bar> = \<bar>of_int (sgn a * sgn b) :: rat\<bar> * \<bar>double_pos \<bar>a\<bar> \<bar>b\<bar>\<bar>"
    by (simp only: abs_mult)
  then show ?thesis using s p by simp
qed

lemma double_div_abs_bound: "b \<noteq> 0 \<Longrightarrow> \<bar>double_div a b\<bar> \<le> 2 * of_int \<bar>a\<bar> + 1 / 4"
proof (cases "a = 0")
  case True
  then show ?thesis by (simp add: double_div_def)
next
  case False
  assume b: "b \<noteq> 0"
  have pa: "0 < \<bar>a\<bar>" and pb: "0 < \<bar>b\<bar>" using False b by auto
  have "(1::rat) \<le> of_int \<bar>b\<bar>" using pb by (simp only: of_int_1_le_iff)
  then have "of_int \<bar>a\<bar> / (of_int \<bar>b\<bar> :: rat) \<le> of_int \<bar>a\<bar> / 1"
    using pa by (intro divide_left_mono) auto
  then have "2 * (of_int \<bar>a\<bar> / of_int \<bar>b\<bar>) + 1 / 4 \<le> 2 * (of_int \<bar>a\<bar> :: rat) + 1 / 4"
    by simp
  then show ?thesis
    using double_pos_upper [OF pa pb] double_div_abs [OF False b] by linarith
qed

lemma py_truediv_in_range:
  assumes "b \<noteq> 0" and "\<bar>a\<bar> < 2 ^ 1022"
  shows "py_truediv a b = Inr (double_div a b)"
proof -
  have "(of_int \<bar>a\<bar> :: rat) < of_int (2 ^ 1022)" using assms(2) by (simp only: of_int_less_iff)
  also have "\<dots> = pow2 1022" by (simp add: pow2_nat)
  finally have a: "(of_int \<bar>a\<bar> :: rat) < pow2 1022" .
  have "pow2 1024 = pow2 1022 * pow2 2" by (simp add: pow2_add [symmetric])
  also have "pow2 2 = 4" by (simp add: pow2_def)
  finally have p: "pow2 1024 = 4 * pow2 1022" by simp
  have "1 / 4 < pow2 1022"
  proof -
    have "pow2 0 \<le> pow2 1022" by (rule pow2_mono) simp
    then show ?thesis by (simp add: pow2_def)
  qed
  then have "2 * (of_int \<bar>a\<bar> :: rat) + 1 / 4 < pow2 1024" using a p by linarith
  then have "\<bar>double_div a b\<bar> < pow2 1024"
    using double_div_abs_bound [OF assms(1), of a] by linarith
  then show ?thesis using assms(1) by (simp add: py_truediv_def)
qed

lemma chunk_count_bound:
  assumes "0 < E" and "T \<noteq> 0"
  shows "1 \<le> max (py_round (double_div E T)) 1" and "max (py_round (double_div E T)) 1 \<le> 2 * E"
proof -
  show "1 \<le> max (py_round (double_div E T)) 1" by simp
  have "py_round (double_div E T) \<le> 2 * E"
  proof (cases "0 < T")
    case True
    have "(1::rat) \<le> of_int T" using True by (simp only: of_int_1_le_iff)
    then have "of_int E / (of_int T :: rat) \<le> of_int E / 1"
      using assms(1) by (intro divide_left_mono) auto
    then have "double_div E T \<le> 2 * of_int E + 1 / 4"
      using double_pos_upper [OF assms(1) True] double_div_pos [OF assms(1) True] by simp
    then have "(of_int (py_round (double_div E T)) :: rat) \<le> 2 * of_int E + 3 / 4"
      using py_round_error [of "double_div E T"] by linarith
    then have "(of_int (py_round (double_div E T)) :: rat) < of_int (2 * E + 1)" by simp
    then have "py_round (double_div E T) < 2 * E + 1" by (simp only: of_int_less_iff)
    then show ?thesis by simp
  next
    case False
    then have neg: "T < 0" using assms(2) by simp
    have "0 \<le> double_pos E (- T)" using assms(1) neg by (intro double_pos_nonneg) auto
    then have "double_div E T \<le> 0" using double_div_neg [OF assms(1) neg] by simp
    from py_round_nonpos [OF this] show ?thesis using assms(1) by simp
  qed
  then show "max (py_round (double_div E T)) 1 \<le> 2 * E" using assms(1) by simp
qed

lemma double_div_chunk_pos:
  assumes "0 < E" and "1 \<le> n" and "n \<le> 2 * E"
  shows "0 < double_div E n"
proof -
  have n: "0 < n" using assms(2) by simp
  have "(of_int n :: rat) \<le> of_int (2 * E)" using assms(3) by (simp only: of_int_le_iff)
  then have "1 / 2 \<le> of_int E / (of_int n :: rat)"
    using n by (simp add: field_simps)
  moreover have "pow2 (- 1022) \<le> 1 / 2"
  proof -
    have "pow2 (- 1022) \<le> pow2 (- 1)" by (rule pow2_mono) simp
    then show ?thesis by (simp add: pow2_def)
  qed
  ultimately have q: "pow2 (- 1022) \<le> of_int E / of_int n" "0 < of_int E / (of_int n :: rat)"
    by linarith+
  have "0 < of_int E / (of_int n :: rat) / 2" using q(2) by simp
  then have "0 < double_pos E n"
    using double_pos_positive [OF assms(1) n q(1)] by (rule less_le_trans)
  then show ?thesis using double_div_pos [OF assms(1) n] by simp
qed

lemma even_chunksize_Inr_pos:
  assumes "even_chunksize E T = Inr a" and "0 < E"
  shows "0 < a"
proof -
  have T: "T \<noteq> 0" using assms(1) by (auto simp: even_chunksize_def py_truediv_def)
  let ?n = "max (py_round (double_div E T)) 1"
  have "a = py_ceil (double_div E ?n)"
    using assms(1) T
    by (auto simp: even_chunksize_def py_truediv_def Let_def split: if_splits)
  moreover have "0 < double_div E ?n"
    using chunk_count_bound [OF assms(2) T] by (intro double_div_chunk_pos [OF assms(2)]) auto
  ultimately show ?thesis by (simp add: py_ceil_def)
qed

lemma even_chunksize_zero: "even_chunksize E 0 = Inl ZeroDivisionError"
  by (simp add: even_chunksize_def py_truediv_def)

lemma even_chunksize_in_range:
  assumes "T \<noteq> 0" and "\<bar>E\<bar> < 2 ^ 1022"
  shows "even_chunksize E T = Inr (py_ceil (double_div E (max (py_round (double_div E T)) 1)))"
proof -
  have n: "max (py_round (double_div E T)) 1 \<noteq> 0" by simp
  show ?thesis
    by (simp only: even_chunksize_def py_truediv_in_range [OF assms] Let_def sum.case
        py_truediv_in_range [OF n assms(2)])
qed

lemma py_round_of_int: "py_round (of_int i) = i"
  by (simp add: py_round_def)

lemma py_round_unique: "\<bar>of_int z - x\<bar> < 1 / 2 \<Longrightarrow> py_round x = z"
proof -
  assume a: "\<bar>of_int z - x\<bar> < 1 / 2"
  have "\<bar>(of_int (py_round x) :: rat) - of_int z\<bar> < 1"
    using py_round_error [of x] a by linarith
  then have "\<bar>(of_int (py_round x - z) :: rat)\<bar> < 1" by (simp only: of_int_diff)
  then have "\<bar>py_round x - z\<bar> < 1" by (metis of_int_abs of_int_less_1_iff)
  then show ?thesis by simp
qed

lemma quot_le_int: "0 < b \<Longrightarrow> (of_int a / of_int b \<le> (of_int z :: rat)) = (a \<le> z * b)"
proof -
  assume "0 < b"
  then have bp: "(0::rat) < of_int b" by simp
  have "(of_int a / of_int b \<le> (of_int z :: rat)) = (of_int a \<le> (of_int z :: rat) * of_int b)"
    using bp by (rule pos_divide_le_eq)
  also have "\<dots> = ((of_int a :: rat) \<le> of_int (z * b))" by simp
  also have "\<dots> = (a \<le> z * b)" by (rule of_int_le_iff)
  finally show ?thesis .
qed

lemma int_le_quot: "0 < b \<Longrightarrow> ((of_int z :: rat) \<le> of_int a / of_int b) = (z * b \<le> a)"
proof -
  assume "0 < b"
  then have bp: "(0::rat) < of_int b" by simp
  have "((of_int z :: rat) \<le> of_int a / of_int b) = ((of_int z :: rat) * of_int b \<le> of_int a)"
    using bp by (rule pos_le_divide_eq)
  also have "\<dots> = ((of_int (z * b) :: rat) \<le> of_int a)" by simp
  also have "\<dots> = (z * b \<le> a)" by (rule of_int_le_iff)
  finally show ?thesis .
qed

lemma int_less_quot: "0 < b \<Longrightarrow> ((of_int z :: rat) < of_int a / of_int b) = (z * b < a)"
proof -
  assume "0 < b"
  then have bp: "(0::rat) < of_int b" by simp
  have "((of_int z :: rat) < of_int a / of_int b) = ((of_int z :: rat) * of_int b < of_int a)"
    using bp by (rule pos_less_divide_eq)
  also have "\<dots> = ((of_int (z * b) :: rat) < of_int a)" by simp
  also have "\<dots> = (z * b < a)" by (rule of_int_less_iff)
  finally show ?thesis .
qed

lemma quot_plus_one:
  "0 < b \<Longrightarrow> (of_int (z * b + 1) :: rat) / of_int b = of_int z + 1 / of_int b"
  by (simp add: add_divide_distrib)

lemma ilog2_upper:
  "0 < a \<Longrightarrow> 0 < b \<Longrightarrow> of_int a / of_int b < pow2 k \<Longrightarrow> ilog2 a b < k"
proof -
  assume "0 < a" "0 < b" "of_int a / of_int b < pow2 k"
  then have "pow2 (ilog2 a b) < pow2 k" using ilog2_bounds(1) [of a b] by linarith
  then show ?thesis by (rule pow2_less_cancel)
qed

text \<open>A quotient with few enough bits is a double: the division is exact.\<close>

lemma double_pos_exact:
  assumes "0 < a" and "0 < b" and "- 1022 \<le> ilog2 a b" and "0 \<le> j" and "ilog2 a b + j \<le> 52"
    and "of_int a / of_int b * pow2 j = of_int w"
  shows "double_pos a b = of_int a / of_int b"
proof -
  let ?q = "of_int a / of_int b :: rat"
  let ?e = "ilog2 a b"
  have m: "max ?e (- 1022) = ?e" using assms(3) by simp
  define ulp where "ulp = pow2 (?e - 52)"
  have up: "0 < ulp" by (simp add: ulp_def pow2_pos)
  have d: "double_pos a b = of_int (py_round (?q / ulp)) * ulp"
    by (simp add: double_pos_def ulp_def Let_def m)
  have "1 / ulp = pow2 (52 - ?e)"
  proof -
    have "pow2 (52 - ?e) * pow2 (?e - 52) = pow2 0" by (simp add: pow2_add [symmetric])
    then have "pow2 (52 - ?e) * ulp = 1" by (simp add: ulp_def pow2_def)
    then show ?thesis using up by (simp add: field_simps)
  qed
  also have "\<dots> = pow2 j * pow2 (52 - ?e - j)" by (simp add: pow2_add [symmetric])
  also have "pow2 (52 - ?e - j) = of_int (2 ^ nat (52 - ?e - j))"
    using assms(5) by (simp add: pow2_nat)
  finally have inv: "1 / ulp = pow2 j * of_int (2 ^ nat (52 - ?e - j))" .
  have "?q / ulp = ?q * (1 / ulp)" by simp
  also have "\<dots> = ?q * pow2 j * of_int (2 ^ nat (52 - ?e - j))" by (simp only: inv mult.assoc)
  also have "\<dots> = of_int (w * 2 ^ nat (52 - ?e - j))" by (simp only: assms(6) of_int_mult)
  finally have "py_round (?q / ulp) = w * 2 ^ nat (52 - ?e - j)"
    and q: "?q / ulp = of_int (w * 2 ^ nat (52 - ?e - j))"
    by (simp_all only: py_round_of_int)
  then have "double_pos a b = ?q / ulp * ulp" by (simp only: d q)
  then show ?thesis using up by simp
qed

lemma small_relative_error:
  assumes "0 < a" and "0 < b" and "a < 2 ^ k" and "k \<le> 53"
  shows "of_int a / of_int b * pow2 (- 53) * of_int b * 2 ^ (53 - k) < (1::rat)"
proof -
  have "(of_int a :: rat) < of_int (2 ^ k)" using assms(3) by (simp only: of_int_less_iff)
  then have "(of_int a :: rat) * 2 ^ (53 - k) < 2 ^ k * 2 ^ (53 - k)" by simp
  also have "\<dots> = 2 ^ 53" using assms(4) by (simp add: power_add [symmetric])
  also have "\<dots> = pow2 53" by (simp add: pow2_nat)
  finally have "(of_int a :: rat) * 2 ^ (53 - k) * pow2 (- 53) < pow2 53 * pow2 (- 53)"
    using pow2_pos [of "- 53"] by simp
  also have "\<dots> = 1" by (simp add: pow2_add [symmetric] pow2_def)
  finally show ?thesis using assms(2) by (simp add: field_simps)
qed

lemma double_ceil_exact:
  assumes "0 < a" and "0 < b" and "a < 2 ^ 53" and "pow2 (- 1022) \<le> of_int a / of_int b"
  shows "\<lceil>double_pos a b\<rceil> = \<lceil>of_int a / of_int b :: rat\<rceil>"
proof (cases "b dvd a")
  case True
  then obtain w where w: "a = b * w" by (auto simp: dvd_def)
  have q: "of_int a / of_int b * pow2 0 = (of_int w :: rat)"
    using assms(2) w by (simp add: pow2_def)
  have "(1::rat) \<le> of_int b" using assms(2) by (simp only: of_int_1_le_iff)
  then have "of_int a / (of_int b :: rat) \<le> of_int a / 1"
    using assms(1) by (intro divide_left_mono) auto
  moreover have "(of_int a :: rat) < of_int (2 ^ 53)" using assms(3) by (simp only: of_int_less_iff)
  moreover have "(of_int (2 ^ 53) :: rat) = pow2 53" by (simp add: pow2_nat)
  ultimately have "of_int a / (of_int b :: rat) < pow2 53" by simp
  from ilog2_upper [OF assms(1,2) this] have e: "ilog2 a b + 0 \<le> 52" by simp
  from double_pos_exact [OF assms(1,2) normal_exponent [OF assms(1,2,4)] _ e q]
  show ?thesis by simp
next
  case False
  let ?q = "of_int a / of_int b :: rat"
  let ?z = "\<lceil>?q\<rceil>"
  have bp: "(0::rat) < of_int b" using assms(2) by simp
  have "?q \<le> of_int ?z" by (rule le_of_int_ceiling)
  then have "a \<le> ?z * b" by (simp only: quot_le_int [OF assms(2)])
  moreover have "a \<noteq> ?z * b"
  proof
    assume "a = ?z * b"
    then have "b dvd a" by (metis dvd_triv_right)
    with False show False ..
  qed
  ultimately have "a + 1 \<le> ?z * b" by simp
  then have "(of_int (a + 1) :: rat) / of_int b \<le> of_int ?z" by (simp only: quot_le_int [OF assms(2)])
  moreover have "(of_int (a + 1) :: rat) / of_int b = ?q + 1 / of_int b"
    by (simp add: add_divide_distrib)
  ultimately have hi: "?q + 1 / of_int b \<le> of_int ?z" by simp
  have "of_int ?z - 1 < ?q" by linarith
  then have "of_int (?z - 1) < ?q" by simp
  then have "(?z - 1) * b < a" by (simp only: int_less_quot [OF assms(2)])
  then have "(?z - 1) * b + 1 \<le> a" by simp
  then have "(of_int ((?z - 1) * b + 1) :: rat) / of_int b \<le> ?q"
    using bp by (intro divide_right_mono) (simp_all only: of_int_le_iff less_imp_le)
  then have lo: "of_int ?z - 1 + 1 / of_int b \<le> ?q"
    by (simp only: quot_plus_one [OF assms(2)] of_int_diff of_int_1)
  have "?q * pow2 (- 53) * of_int b * 2 ^ (53 - 53) < 1"
    by (rule small_relative_error [OF assms(1,2,3)]) simp
  then have err: "?q * pow2 (- 53) < 1 / of_int b" using bp by (simp add: field_simps)
  have "\<bar>double_pos a b - ?q\<bar> < 1 / of_int b"
    using double_pos_relative [OF assms(1,2,4)] err by linarith
  then have "of_int ?z - 1 < double_pos a b" "double_pos a b \<le> of_int ?z"
    using lo hi by linarith+
  then show ?thesis by (intro ceiling_unique) auto
qed

lemma abs_half_bounds:
  fixes z q :: rat
  assumes "\<bar>z - q\<bar> \<le> 1 / 2"
  shows "2 * z - 1 \<le> q * 2" and "q * 2 \<le> 2 * z + 1"
  using assms by linarith+

lemma halve_bounds:
  fixes z q c :: rat
  shows "2 * z - 1 + c \<le> q * 2 \<Longrightarrow> z - 1 / 2 + c / 2 \<le> q"
    and "q * 2 + c \<le> 2 * z + 1 \<Longrightarrow> q + c / 2 \<le> z + 1 / 2"
  by linarith+

lemma double_round_exact:
  assumes "0 < a" and "0 < b" and "a < 2 ^ 52"
  shows "py_round (double_pos a b) = py_round (of_int a / of_int b)"
proof (cases "pow2 (- 1022) \<le> of_int a / of_int b")
  case False
  let ?q = "of_int a / of_int b :: rat"
  have lt: "?q < pow2 (- 1022)" using False by simp
  have "pow2 (- 1022) \<le> pow2 (- 2)" by (rule pow2_mono) simp
  moreover have "pow2 (- 2) = 1 / 4" by (simp add: pow2_def)
  moreover have "0 < ?q" using assms by simp
  ultimately have "\<bar>?q\<bar> < 1 / 2" using lt by simp
  then have "py_round ?q = 0" by (rule py_round_small)
  moreover have "\<bar>double_pos a b\<bar> < 1 / 2"
    using double_pos_tiny [OF assms(1,2) lt] double_pos_nonneg [OF assms(1,2)] by simp
  then have "py_round (double_pos a b) = 0" by (rule py_round_small)
  ultimately show ?thesis by simp
next
  case normal: True
  let ?q = "of_int a / of_int b :: rat"
  have bp: "(0::rat) < of_int b" using assms(2) by simp
  show ?thesis
  proof (cases "b dvd 2 * a")
    case True
    then obtain w where w: "2 * a = b * w" by (auto simp: dvd_def)
    have "?q * 2 = of_int (2 * a) / of_int b" by simp
    also have "\<dots> = of_int w" using assms(2) by (simp only: w) simp
    finally have q: "?q * pow2 1 = of_int w" by (simp add: pow2_def)
    have "(1::rat) \<le> of_int b" using assms(2) by (simp only: of_int_1_le_iff)
    then have "of_int a / (of_int b :: rat) \<le> of_int a / 1"
      using assms(1) by (intro divide_left_mono) auto
    moreover have "(of_int a :: rat) < of_int (2 ^ 52)" using assms(3) by (simp only: of_int_less_iff)
    moreover have "(of_int (2 ^ 52) :: rat) = pow2 52" by (simp add: pow2_nat)
    ultimately have "?q < pow2 52" by simp
    from ilog2_upper [OF assms(1,2) this] have e: "ilog2 a b + 1 \<le> 52" by simp
    from double_pos_exact [OF assms(1,2) normal_exponent [OF assms(1,2) normal] _ e q]
    show ?thesis by simp
  next
    case False
    let ?z = "py_round ?q"
    have r: "\<bar>of_int ?z - ?q\<bar> \<le> 1 / 2" by (rule py_round_error)
    have q2: "?q * 2 = of_int (2 * a) / of_int b" by simp
    have e1: "(of_int (2 * ?z - 1) :: rat) = 2 * of_int ?z - 1" by simp
    have e2: "(of_int (2 * ?z + 1) :: rat) = 2 * of_int ?z + 1" by simp
    from abs_half_bounds [OF r] have "of_int (2 * ?z - 1) \<le> ?q * 2" "?q * 2 \<le> of_int (2 * ?z + 1)" by simp_all
    then have "(2 * ?z - 1) * b \<le> 2 * a" "2 * a \<le> (2 * ?z + 1) * b"
      by (simp_all only: q2 quot_le_int [OF assms(2)] int_le_quot [OF assms(2)])
    moreover have "2 * a \<noteq> (2 * ?z - 1) * b"
    proof
      assume "2 * a = (2 * ?z - 1) * b"
      then have "b dvd 2 * a" by (metis dvd_triv_right)
      with False show False ..
    qed
    moreover have "2 * a \<noteq> (2 * ?z + 1) * b"
    proof
      assume "2 * a = (2 * ?z + 1) * b"
      then have "b dvd 2 * a" by (metis dvd_triv_right)
      with False show False ..
    qed
    ultimately have i1: "(2 * ?z - 1) * b + 1 \<le> 2 * a" and i2: "2 * a + 1 \<le> (2 * ?z + 1) * b"
      by simp_all
    have "(of_int ((2 * ?z - 1) * b + 1) :: rat) / of_int b \<le> of_int (2 * a) / of_int b"
      using bp i1 by (intro divide_right_mono) (simp_all only: of_int_le_iff less_imp_le)
    then have "of_int (2 * ?z - 1) + 1 / of_int b \<le> ?q * 2"
      by (simp only: quot_plus_one [OF assms(2)] q2)
    then have "2 * of_int ?z - 1 + 1 / of_int b \<le> ?q * 2" by (simp only: e1)
    then have lo: "of_int ?z - 1 / 2 + 1 / of_int b / 2 \<le> ?q" by (rule halve_bounds)
    have "(of_int (2 * a + 1) :: rat) / of_int b \<le> of_int (2 * ?z + 1)"
      using i2 by (simp only: quot_le_int [OF assms(2)])
    moreover have "(of_int (2 * a + 1) :: rat) / of_int b = ?q * 2 + 1 / of_int b"
      by (simp add: add_divide_distrib)
    ultimately have "?q * 2 + 1 / of_int b \<le> of_int (2 * ?z + 1)" by (simp only:)
    then have "?q * 2 + 1 / of_int b \<le> 2 * of_int ?z + 1" by (simp only: e2)
    then have hi: "?q + 1 / of_int b / 2 \<le> of_int ?z + 1 / 2" by (rule halve_bounds)
    have "?q * pow2 (- 53) * of_int b * 2 ^ (53 - 52) < 1"
      by (rule small_relative_error [OF assms(1,2,3)]) simp
    then have err: "?q * pow2 (- 53) < 1 / of_int b / 2" using bp by (simp add: field_simps)
    have "\<bar>double_pos a b - ?q\<bar> < 1 / of_int b / 2"
      using double_pos_relative [OF assms(1,2) normal] err by linarith
    then have "\<bar>of_int ?z - double_pos a b\<bar> < 1 / 2" using lo hi by linarith
    then show ?thesis by (rule py_round_unique)
  qed
qed

lemma chunk_quotient_normal:
  assumes "0 < E" and "1 \<le> n" and "n \<le> 2 * E"
  shows "pow2 (- 1022) \<le> of_int E / of_int n"
proof -
  have n: "0 < n" using assms(2) by simp
  have "(of_int n :: rat) \<le> of_int (2 * E)" using assms(3) by (simp only: of_int_le_iff)
  then have "1 / 2 \<le> of_int E / (of_int n :: rat)"
    using n by (simp add: field_simps)
  moreover have "pow2 (- 1022) \<le> 1 / 2"
  proof -
    have "pow2 (- 1022) \<le> pow2 (- 1)" by (rule pow2_mono) simp
    then show ?thesis by (simp add: pow2_def)
  qed
  ultimately show ?thesis by linarith
qed

lemma chunk_count_exact:
  assumes "0 < E" and "E < 2 ^ 52" and "T \<noteq> 0"
  shows "max (py_round (double_div E T)) 1 = max (py_round (of_int E / of_int T)) 1"
proof (cases "0 < T")
  case True
  show ?thesis
    by (simp only: double_div_pos [OF assms(1) True] double_round_exact [OF assms(1) True assms(2)])
next
  case False
  then have neg: "T < 0" using assms(3) by simp
  have "0 \<le> double_pos E (- T)" using assms(1) neg by (intro double_pos_nonneg) auto
  then have "double_div E T \<le> 0" using double_div_neg [OF assms(1) neg] by simp
  then have a: "py_round (double_div E T) \<le> 0" by (rule py_round_nonpos)
  have "(of_int E :: rat) / of_int T \<le> 0"
    using assms(1) neg by (simp add: divide_le_0_iff)
  then have b: "py_round (of_int E / of_int T) \<le> 0" by (rule py_round_nonpos)
  from a b show ?thesis by simp
qed

lemma even_chunksize_exact:
  assumes "0 \<le> E" and "E < 2 ^ 52" and "T \<noteq> 0"
  shows "py_ceil (double_div E (max (py_round (double_div E T)) 1)) =
         \<lceil>of_int E / of_int (max (py_round (of_int E / of_int T)) 1) :: rat\<rceil>"
proof (cases "E = 0")
  case True
  then show ?thesis by (simp add: double_div_def py_ceil_def)
next
  case False
  then have E: "0 < E" using assms(1) by simp
  let ?n = "max (py_round (double_div E T)) 1"
  have n: "1 \<le> ?n" "?n \<le> 2 * E" by (rule chunk_count_bound [OF E assms(3)])+
  then have np: "0 < ?n" by simp
  have E53: "E < 2 ^ 53" using assms(2) by simp
  have "\<lceil>double_pos E ?n\<rceil> = \<lceil>of_int E / of_int ?n :: rat\<rceil>"
    using E np E53 chunk_quotient_normal [OF E n] by (rule double_ceil_exact)
  then have "py_ceil (double_div E ?n) = \<lceil>of_int E / of_int ?n :: rat\<rceil>"
    by (simp only: py_ceil_def double_div_pos [OF E np])
  then show ?thesis by (simp only: chunk_count_exact [OF E assms(2,3)])
qed

section \<open>Even-split planning\<close>

lemma even_loop_static_step:
  "s < E \<Longrightarrow> even_loop False E a s sent =
     Option.bind (even_loop False E a (min E (s + a)) (tl sent)) (\<lambda>rest. Some ((s, min E (s + a)) # rest))"
  by (subst even_loop.simps) (simp add: Let_def split: option.split list.split)

lemma even_loop_done: "\<not> s < E \<Longrightarrow> even_loop d E a s sent = Some []"
  by (subst even_loop.simps) simp

lemma even_loop_static:
  "0 < a \<or> E \<le> s \<Longrightarrow>
   \<exists>ps. even_loop False E a s sent = Some ps \<and> tiles_from s E ps \<and> (\<forall>p\<in>set ps. snd p - fst p \<le> a)"
proof (induction "nat (E - s)" arbitrary: s sent rule: less_induct)
  case less
  show ?case
  proof (cases "s < E")
    case False
    then show ?thesis by (simp add: even_loop_done)
  next
    case True
    with less.prems have a: "0 < a" by simp
    let ?stop = "min E (s + a)"
    have lt: "nat (E - ?stop) < nat (E - s)" using True a by auto
    have "0 < a \<or> E \<le> ?stop" using a by simp
    from less.hyps [OF lt this, of "tl sent"] obtain ps where
      ps: "even_loop False E a ?stop (tl sent) = Some ps" "tiles_from ?stop E ps"
          "\<forall>p\<in>set ps. snd p - fst p \<le> a" by blast
    have "even_loop False E a s sent = Some ((s, ?stop) # ps)"
      using even_loop_static_step [OF True, of a sent] ps(1) by simp
    moreover have "tiles_from s E ((s, ?stop) # ps)" using ps(2) True a by simp
    moreover have "\<forall>p\<in>set ((s, ?stop) # ps). snd p - fst p \<le> a" using ps(3) by auto
    ultimately show ?thesis by blast
  qed
qed

lemma tiles_from_before:
  "tiles_from s E ps \<Longrightarrow> i < s \<Longrightarrow> filter (\<lambda>p. fst p \<le> i \<and> i < snd p) ps = []"
  by (induction ps arbitrary: s) auto

lemma tiles_from_cover:
  "tiles_from s E ps \<Longrightarrow> s \<le> i \<Longrightarrow> i < E \<Longrightarrow> covering ps i = 1"
  unfolding covering_def
proof (induction ps arbitrary: s)
  case Nil
  then show ?case by simp
next
  case (Cons p ps)
  show ?case
  proof (cases "i < snd p")
    case True
    then show ?thesis using Cons.prems tiles_from_before [of "snd p" E ps i] by simp
  next
    case False
    then show ?thesis using Cons.prems Cons.IH [of "snd p"] by simp
  qed
qed

lemma populated_keys:
  "populated self al \<Longrightarrow> metadata self = Some md \<Longrightarrow>
     (\<exists>u. map_of md ''uuid'' = Some u) \<and> (\<exists>n. map_of md ''numentries'' = Some n) \<and>
     (al \<longrightarrow> (\<exists>c. map_of md ''clusters'' = Some c))"
  by (auto simp: populated_def split: if_splits)

lemma span_mk_WorkItem: "map span (map (mk_WorkItem self u um) ps) = ps"
  by (induction ps) (simp_all add: span_def mk_WorkItem_def)

lemma dataset_mk_WorkItem: "dataset (mk_WorkItem self u um p) = dataset self"
  by (simp add: mk_WorkItem_def)

lemma chunks_even:
  assumes "populated self False" "metadata self = Some md" "map_of md ''uuid'' = Some u"
    and "map_of md ''numentries'' = Some (IntV E)" "even_chunksize E T = Inr a"
  shows "chunks self T False dyn sent =
           map_option (\<lambda>ps. Inr (map (mk_WorkItem self u
               (filter (\<lambda>kv. fst kv \<notin> set PROTECTED_NAMES) md)) ps)) (even_loop dyn E a 0 sent)"
  using assms by (simp add: chunks_def Let_def)

lemma chunks_cluster:
  assumes "populated self True" "metadata self = Some md" "map_of md ''uuid'' = Some u"
    and "map_of md ''clusters'' = Some (ListV cl)"
  shows "chunks self T True False sent =
           Some (case cluster_chunks T cl of Inl e \<Rightarrow> Inl e
                 | Inr ps \<Rightarrow> Inr (map (mk_WorkItem self u
                     (filter (\<lambda>kv. fst kv \<notin> set PROTECTED_NAMES) md)) ps))"
  using assms by (auto simp: chunks_def Let_def split: sum.split)

text \<open>
  Claim C1, as the code has it. For a populated descriptor with \<open>numentries = E\<close> and a
  target chunk size \<open>T\<close> (not zero: the division by it raises ZeroDivisionError
  otherwise; and \<open>E\<close> below \<open>2 ^ 1022\<close> in size, where no division overflows), even-split
  planning (\<open>align_clusters\<close> and \<open>dynamic_chunksize\<close> both false, whatever is sent)
  returns units whose ranges tile \<open>[0, E)\<close>: in their order each is non-empty and starts
  where the one before stopped, from 0 to \<open>E\<close>; every entry of \<open>[0, E)\<close> lies in exactly
  one unit; no unit is wider than \<open>ceil(E / max(round(E/T), 1))\<close> with the two divisions
  rounded to a double, as the code computes the width; and for \<open>E\<close> below \<open>2 ^ 52\<close> no
  unit is wider than \<open>ceil(E / max(round(E/T), 1))\<close> with exact divisions.
\<close>

theorem even_split_tiles:
  assumes "populated self False" and "metadata self = Some md"
    and "map_of md ''numentries'' = Some (IntV E)" and "T \<noteq> 0" and "\<bar>E\<bar> < 2 ^ 1022"
  shows "\<exists>ws. chunks self T False False sent = Some (Inr ws)
           \<and> tiles_from 0 E (map span ws)
           \<and> (\<forall>i. 0 \<le> i \<and> i < E \<longrightarrow> covering (map span ws) i = 1)
           \<and> (\<forall>w\<in>set ws. len_WorkItem w
                  \<le> py_ceil (double_div E (max (py_round (double_div E T)) 1)))
           \<and> (E < 2 ^ 52 \<longrightarrow>
                (\<forall>w\<in>set ws. len_WorkItem w
                  \<le> py_ceil (of_int E / of_int (max (py_round (of_int E / of_int T)) 1))))"
proof -
  let ?a = "py_ceil (double_div E (max (py_round (double_div E T)) 1))"
  have a: "even_chunksize E T = Inr ?a" by (rule even_chunksize_in_range [OF assms(4,5)])
  have "0 < ?a \<or> E \<le> 0"
  proof (cases "0 < E")
    case True
    from even_chunksize_Inr_pos [OF a True] show ?thesis ..
  next
    case False
    then show ?thesis by simp
  qed
  from even_loop_static [OF this, of sent] obtain ps where
    ps: "even_loop False E ?a 0 sent = Some ps" "tiles_from 0 E ps"
        "\<forall>p\<in>set ps. snd p - fst p \<le> ?a" by blast
  from populated_keys [OF assms(1,2)] obtain u where u: "map_of md ''uuid'' = Some u" by blast
  define um where "um = filter (\<lambda>kv. fst kv \<notin> set PROTECTED_NAMES) md"
  have c: "chunks self T False False sent = Some (Inr (map (mk_WorkItem self u um) ps))"
    using chunks_even [OF assms(1,2) u assms(3) a, of False sent] ps(1) by (simp add: um_def)
  let ?ws = "map (mk_WorkItem self u um) ps"
  have sp: "map span ?ws = ps" by (rule span_mk_WorkItem)
  have til: "tiles_from 0 E (map span ?ws)" using ps(2) by (simp only: sp)
  have cov: "\<forall>i. 0 \<le> i \<and> i < E \<longrightarrow> covering (map span ?ws) i = 1"
    using tiles_from_cover [OF ps(2)] sp by simp
  have wd: "\<forall>w\<in>set ?ws. len_WorkItem w \<le> ?a"
    using ps(3) by (auto simp: mk_WorkItem_def len_WorkItem_def)
  have ex: "E < 2 ^ 52 \<longrightarrow>
              (\<forall>w\<in>set ?ws. len_WorkItem w
                 \<le> py_ceil (of_int E / of_int (max (py_round (of_int E / of_int T)) 1)))"
  proof
    assume lt: "E < 2 ^ 52"
    show "\<forall>w\<in>set ?ws. len_WorkItem w
            \<le> py_ceil (of_int E / of_int (max (py_round (of_int E / of_int T)) 1))"
    proof (cases "0 \<le> E")
      case True
      have "?a = py_ceil (of_int E / of_int (max (py_round (of_int E / of_int T)) 1))"
        using even_chunksize_exact [OF True lt assms(4)] by (simp only: py_ceil_def)
      with wd show ?thesis by simp
    next
      case False
      then have "ps = []" using ps(2) by (cases ps) auto
      then show ?thesis by simp
    qed
  qed
  from c til cov wd ex show ?thesis by (intro exI [of _ "?ws"] conjI)
qed

theorem even_split_tiles_witness:
  "populated (example_file ''a.root'' 250000) False \<and> (100000::int) \<noteq> 0 \<and>
   \<bar>250000::int\<bar> < 2 ^ 1022 \<and>
   (\<exists>ws. chunks (example_file ''a.root'' 250000) 100000 False False [] = Some (Inr ws)
      \<and> tiles_from 0 250000 (map span ws)
      \<and> (\<forall>i. 0 \<le> i \<and> i < 250000 \<longrightarrow> covering (map span ws) i = 1)
      \<and> (\<forall>w\<in>set ws. len_WorkItem w
             \<le> py_ceil (double_div 250000 (max (py_round (double_div 250000 100000)) 1)))
      \<and> (\<forall>w\<in>set ws. len_WorkItem w
             \<le> py_ceil (of_int 250000 / of_int (max (py_round (of_int 250000 / of_int 100000)) 1))))"
proof -
  have p: "populated (example_file ''a.root'' 250000) False"
    by (simp add: populated_def example_file_def)
  have m: "metadata (example_file ''a.root'' 250000) =
             Some [(''numentries'', IntV 250000), (''uuid'', BytesV ''a.root'')]"
    by (simp add: example_file_def)
  have e: "map_of [(''numentries'', IntV 250000), (''uuid'', BytesV ''a.root'')] ''numentries''
             = Some (IntV 250000)"
    by simp
  have t: "(100000::int) \<noteq> 0" by simp
  have r: "\<bar>250000::int\<bar> < 2 ^ 1022" by simp
  have l: "(250000::int) < 2 ^ 52" by simp
  from even_split_tiles [OF p m e t r, of "[]"] l p t r show ?thesis by blast
qed

text \<open>
  The claim C1 as stated, with exact divisions, fails for entry counts above \<open>2 ^ 53\<close>:
  with 11258999068426246 entries and the target 4503599627370498 the quotient is a little
  above 2.5 and its double is 2.5, which \<^verbatim>\<open>round\<close> takes to 2, so the code returns two
  units of 5629499534213123 entries, wider than \<open>ceil(E / max(round(E/T), 1))\<close>, which
  is 3752999689475416 (three units).
\<close>

theorem even_split_tiles_counterexample:
  "populated (example_file ''a.root'' 11258999068426246) False
   \<and> map span (case chunks (example_file ''a.root'' 11258999068426246) 4503599627370498
                       False False [] of
                 Some (Inr ws) \<Rightarrow> ws | _ \<Rightarrow> [])
       = [(0, 5629499534213123), (5629499534213123, 11258999068426246)]
   \<and> py_ceil (of_int 11258999068426246
                / of_int (max (py_round (of_int 11258999068426246 / of_int 4503599627370498)) 1))
       = 3752999689475416"
  by code_simp

section \<open>The two-file example\<close>

lemma even_loop_250000: "even_loop False 250000 125000 0 [] = Some [(0, 125000), (125000, 250000)]"
  by code_simp

lemma even_loop_50000: "even_loop False 50000 50000 0 [] = Some [(0, 50000)]"
  by code_simp

lemma even_chunksize_250000: "even_chunksize 250000 100000 = Inr 125000"
  by code_simp

lemma even_chunksize_50000: "even_chunksize 50000 100000 = Inr 50000"
  by code_simp

text \<open>
  Claim C2, as the code has it. \<^verbatim>\<open>round(250000 / 100000)\<close> is \<^verbatim>\<open>round(2.5)\<close>, which
  is 2 (a half goes to the even neighbour), so the first file is cut into the two units
  \<open>[0, 125000)\<close> and \<open>[125000, 250000)\<close>; the second file is the single unit
  \<open>[0, 50000)\<close>; the plan of the two files has 3 units.
\<close>

theorem two_files_plan:
  assumes "populated f1 False" and "metadata f1 = Some md1"
    and "map_of md1 ''numentries'' = Some (IntV 250000)"
    and "populated f2 False" and "metadata f2 = Some md2"
    and "map_of md2 ''numentries'' = Some (IntV 50000)"
  shows "\<exists>ws1 ws2. chunks f1 100000 False False [] = Some (Inr ws1)
           \<and> map span ws1 = [(0, 125000), (125000, 250000)]
           \<and> chunks f2 100000 False False [] = Some (Inr ws2)
           \<and> map span ws2 = [(0, 50000)]
           \<and> chunk_generator [f1, f2] 100000 False None False [] = Some (ws1 @ ws2, None)
           \<and> length (ws1 @ ws2) = 3"
proof -
  from populated_keys [OF assms(1,2)] obtain u1 where u1: "map_of md1 ''uuid'' = Some u1" by blast
  from populated_keys [OF assms(4,5)] obtain u2 where u2: "map_of md2 ''uuid'' = Some u2" by blast
  define ws1 where "ws1 = map (mk_WorkItem f1 u1 (filter (\<lambda>kv. fst kv \<notin> set PROTECTED_NAMES) md1))
                            [(0, 125000), (125000, 250000)]"
  define ws2 where "ws2 = map (mk_WorkItem f2 u2 (filter (\<lambda>kv. fst kv \<notin> set PROTECTED_NAMES) md2))
                            [(0, 50000)]"
  have c1: "chunks f1 100000 False False [] = Some (Inr ws1)"
    using chunks_even [OF assms(1,2) u1 assms(3) even_chunksize_250000, of False "[]"]
    by (simp add: even_loop_250000 ws1_def)
  have c2: "chunks f2 100000 False False [] = Some (Inr ws2)"
    using chunks_even [OF assms(4,5) u2 assms(6) even_chunksize_50000, of False "[]"]
    by (simp add: even_loop_50000 ws2_def)
  have s1: "map span ws1 = [(0, 125000), (125000, 250000)]"
    unfolding ws1_def by (rule span_mk_WorkItem)
  have s2: "map span ws2 = [(0, 50000)]"
    unfolding ws2_def by (rule span_mk_WorkItem)
  have l2: "length ws1 = 2" "length ws2 = 1" by (simp_all add: ws1_def ws2_def)
  have g: "chunk_generator [f1, f2] 100000 False None False [] = Some (ws1 @ ws2, None)"
    by (simp add: chunk_generator_def c1 c2 l2)
  show ?thesis using c1 c2 s1 s2 g l2 by auto
qed

theorem two_files_plan_witness:
  "populated (example_file ''a.root'' 250000) False \<and>
   populated (example_file ''b.root'' 50000) False \<and>
   (\<exists>ws1 ws2. chunks (example_file ''a.root'' 250000) 100000 False False [] = Some (Inr ws1)
           \<and> map span ws1 = [(0, 125000), (125000, 250000)]
           \<and> chunks (example_file ''b.root'' 50000) 100000 False False [] = Some (Inr ws2)
           \<and> map span ws2 = [(0, 50000)]
           \<and> chunk_generator [example_file ''a.root'' 250000, example_file ''b.root'' 50000]
                100000 False None False [] = Some (ws1 @ ws2, None)
           \<and> length (ws1 @ ws2) = 3)"
proof -
  have p1: "populated (example_file ''a.root'' 250000) False"
    by (simp add: populated_def example_file_def)
  have m1: "metadata (example_file ''a.root'' 250000) =
             Some [(''numentries'', IntV 250000), (''uuid'', BytesV ''a.root'')]"
    by (simp add: example_file_def)
  have e1: "map_of [(''numentries'', IntV 250000), (''uuid'', BytesV ''a.root'')] ''numentries''
             = Some (IntV 250000)"
    by simp
  have p2: "populated (example_file ''b.root'' 50000) False"
    by (simp add: populated_def example_file_def)
  have m2: "metadata (example_file ''b.root'' 50000) =
             Some [(''numentries'', IntV 50000), (''uuid'', BytesV ''b.root'')]"
    by (simp add: example_file_def)
  have e2: "map_of [(''numentries'', IntV 50000), (''uuid'', BytesV ''b.root'')] ''numentries''
             = Some (IntV 50000)"
    by simp
  show ?thesis using two_files_plan [OF p1 m1 e1 p2 m2 e2] p1 p2 by simp
qed

text \<open>
  The plan the claim C2 states (4 units, the first file cut at 83334 and 166667) is not
  the plan of the code: it has 3 units.
\<close>

theorem two_files_plan_counterexample:
  "length (fst (the (chunk_generator [example_file ''a.root'' 250000, example_file ''b.root'' 50000]
                        100000 False None False []))) = 3
   \<and> map span (fst (the (chunk_generator [example_file ''a.root'' 250000, example_file ''b.root'' 50000]
                        100000 False None False [])))
       \<noteq> [(0, 83334), (83334, 166667), (166667, 250000), (0, 50000)]"
  by code_simp

section \<open>Cluster-aligned planning\<close>

lemma cluster_walk_append:
  "\<exists>ys. cluster_walk T acc cs = acc @ ys \<and> set ys \<subseteq> set cs"
proof (induction cs arbitrary: acc)
  case Nil
  then show ?case by simp
next
  case (Cons c cs)
  show ?case
  proof (cases "c \<ge> last acc + T")
    case True
    from Cons.IH [of "acc @ [c]"] obtain ys where
      "cluster_walk T (acc @ [c]) cs = (acc @ [c]) @ ys" "set ys \<subseteq> set cs" by blast
    then have "cluster_walk T acc (c # cs) = acc @ (c # ys) \<and> set (c # ys) \<subseteq> set (c # cs)"
      using True by auto
    then show ?thesis by blast
  next
    case False
    from Cons.IH [of acc] obtain ys where
      "cluster_walk T acc cs = acc @ ys" "set ys \<subseteq> set cs" by blast
    then have "cluster_walk T acc (c # cs) = acc @ ys \<and> set ys \<subseteq> set (c # cs)"
      using False by auto
    then show ?thesis by blast
  qed
qed

lemma zip_butlast_tl:
  "(a, b) \<in> set (zip (butlast (x # ys)) ys) \<Longrightarrow> b \<in> set ys \<and> (a = x \<or> a \<in> set ys)"
proof -
  assume h: "(a, b) \<in> set (zip (butlast (x # ys)) ys)"
  then have "a \<in> set (butlast (x # ys))" by (rule set_zip_leftD)
  then have "a \<in> set (x # ys)" by (rule in_set_butlastD)
  moreover have "b \<in> set ys" using h by (rule set_zip_rightD)
  ultimately show ?thesis by auto
qed

lemma last_zip_butlast:
  "ys \<noteq> [] \<Longrightarrow> snd (last (zip (butlast (x # ys)) ys)) = last ys"
proof -
  assume ne: "ys \<noteq> []"
  have len: "length (butlast (x # ys)) = length ys" by simp
  have "map snd (zip (butlast (x # ys)) ys) = ys" using len by (simp only: map_snd_zip)
  moreover have "zip (butlast (x # ys)) ys \<noteq> []" using ne len by (cases ys) auto
  ultimately show ?thesis by (metis last_map)
qed

lemma cluster_chunks_bounds:
  assumes "clusters \<noteq> []"
  shows "\<exists>ps. cluster_chunks T clusters = Inr ps
           \<and> (\<forall>p\<in>set ps. snd p \<in> set clusters \<and> (fst p = 0 \<or> fst p \<in> set clusters))
           \<and> (last clusters \<noteq> 0 \<longrightarrow> ps \<noteq> [])
           \<and> (ps \<noteq> [] \<longrightarrow> snd (last ps) = last clusters)"
proof -
  from cluster_walk_append [of T "[0]" clusters] obtain ys where
    ys: "cluster_walk T [0] clusters = 0 # ys" "set ys \<subseteq> set clusters" by auto
  define ys' where "ys' = (if last clusters \<noteq> last (0 # ys) then ys @ [last clusters] else ys)"
  have sub: "set ys' \<subseteq> set clusters" using ys(2) assms by (auto simp: ys'_def)
  have c: "cluster_chunks T clusters = Inr (zip (butlast (0 # ys')) ys')"
    using assms ys(1) by (simp add: cluster_chunks_def Let_def ys'_def)
  have lastys: "ys' \<noteq> [] \<Longrightarrow> last ys' = last clusters"
    by (auto simp: ys'_def split: if_splits)
  have mem: "\<forall>p\<in>set (zip (butlast (0 # ys')) ys'). snd p \<in> set clusters \<and> (fst p = 0 \<or> fst p \<in> set clusters)"
  proof
    fix p assume "p \<in> set (zip (butlast (0 # ys')) ys')"
    then have "(fst p, snd p) \<in> set (zip (butlast (0 # ys')) ys')" by simp
    from zip_butlast_tl [OF this] show "snd p \<in> set clusters \<and> (fst p = 0 \<or> fst p \<in> set clusters)"
      using sub by auto
  qed
  have fin: "zip (butlast (0 # ys')) ys' \<noteq> [] \<longrightarrow> snd (last (zip (butlast (0 # ys')) ys')) = last clusters"
  proof
    assume "zip (butlast (0 # ys')) ys' \<noteq> []"
    then have "ys' \<noteq> []" by auto
    then show "snd (last (zip (butlast (0 # ys')) ys')) = last clusters"
      using last_zip_butlast [of ys' 0] lastys by simp
  qed
  have ne: "last clusters \<noteq> 0 \<longrightarrow> zip (butlast (0 # ys')) ys' \<noteq> []"
  proof
    assume "last clusters \<noteq> 0"
    then have "ys' \<noteq> []" by (auto simp: ys'_def)
    then show "zip (butlast (0 # ys')) ys' \<noteq> []" by (cases ys') auto
  qed
  show ?thesis using c mem ne fin by blast
qed

text \<open>
  Claim C7, as the code has it. For a cluster-populated descriptor (a cluster list that
  is not empty and ends at \<open>numentries\<close>), cluster-aligned planning returns units whose
  every \<open>entrystop\<close> is a member of the cluster list and whose every \<open>entrystart\<close> is 0
  or a member of the cluster list, so that every boundary is a member when the list holds
  0; there is a unit when \<open>numentries\<close> is not 0, and the last unit stops at
  \<open>numentries\<close>.
\<close>

theorem cluster_aligned_boundaries:
  assumes "populated self True" and "metadata self = Some md"
    and "map_of md ''clusters'' = Some (ListV clusters)"
    and "map_of md ''numentries'' = Some (IntV E)"
    and "clusters \<noteq> []" and "last clusters = E"
  shows "\<exists>ws. chunks self T True False sent = Some (Inr ws)
           \<and> (\<forall>w\<in>set ws. entrystop w \<in> set clusters
                 \<and> (entrystart w = 0 \<or> entrystart w \<in> set clusters))
           \<and> (0 \<in> set clusters \<longrightarrow>
                 (\<forall>w\<in>set ws. entrystart w \<in> set clusters \<and> entrystop w \<in> set clusters))
           \<and> (E \<noteq> 0 \<longrightarrow> ws \<noteq> [])
           \<and> (ws \<noteq> [] \<longrightarrow> entrystop (last ws) = E)"
proof -
  from populated_keys [OF assms(1,2)] obtain u where u: "map_of md ''uuid'' = Some u" by blast
  from cluster_chunks_bounds [OF assms(5), of T] obtain ps where
    ps: "cluster_chunks T clusters = Inr ps"
        "\<forall>p\<in>set ps. snd p \<in> set clusters \<and> (fst p = 0 \<or> fst p \<in> set clusters)"
        "last clusters \<noteq> 0 \<longrightarrow> ps \<noteq> []"
        "ps \<noteq> [] \<longrightarrow> snd (last ps) = last clusters" by blast
  define um where "um = filter (\<lambda>kv. fst kv \<notin> set PROTECTED_NAMES) md"
  let ?ws = "map (mk_WorkItem self u um) ps"
  have c: "chunks self T True False sent = Some (Inr ?ws)"
    using chunks_cluster [OF assms(1,2) u assms(3), of T sent] ps(1) by (simp add: um_def)
  have m: "\<forall>w\<in>set ?ws. entrystop w \<in> set clusters \<and> (entrystart w = 0 \<or> entrystart w \<in> set clusters)"
    using ps(2) by (auto simp: mk_WorkItem_def)
  have n: "E \<noteq> 0 \<longrightarrow> ?ws \<noteq> []" using ps(3) assms(6) by simp
  have l: "?ws \<noteq> [] \<longrightarrow> entrystop (last ?ws) = E"
    using ps(4) assms(6) by (auto simp: last_map mk_WorkItem_def)
  show ?thesis using c m n l by (intro exI [of _ "?ws"]) auto
qed

theorem cluster_aligned_boundaries_witness:
  "populated (example_clustered ''c.root'' [0, 40, 100, 150, 200]) True \<and>
   [0, 40, 100, 150, 200::int] \<noteq> [] \<and> last [0, 40, 100, 150, 200::int] = 200 \<and>
   (\<exists>ws. chunks (example_clustered ''c.root'' [0, 40, 100, 150, 200]) 100 True False [] = Some (Inr ws)
           \<and> (\<forall>w\<in>set ws. entrystop w \<in> set [0, 40, 100, 150, 200]
                 \<and> (entrystart w = 0 \<or> entrystart w \<in> set [0, 40, 100, 150, 200]))
           \<and> (0 \<in> set [0, 40, 100, 150, 200::int] \<longrightarrow>
                 (\<forall>w\<in>set ws. entrystart w \<in> set [0, 40, 100, 150, 200]
                     \<and> entrystop w \<in> set [0, 40, 100, 150, 200]))
           \<and> ws \<noteq> [] \<and> entrystop (last ws) = 200)"
proof -
  let ?cl = "[0, 40, 100, 150, 200::int]"
  let ?md = "[(''numentries'', IntV 200), (''uuid'', BytesV ''c.root''), (''clusters'', ListV ?cl)]"
  have p: "populated (example_clustered ''c.root'' ?cl) True"
    by (simp add: populated_def example_clustered_def)
  have m: "metadata (example_clustered ''c.root'' ?cl) = Some ?md"
    by (simp add: example_clustered_def)
  have c: "map_of ?md ''clusters'' = Some (ListV ?cl)" by simp
  have e: "map_of ?md ''numentries'' = Some (IntV 200)" by simp
  have n: "?cl \<noteq> []" by simp
  have l: "last ?cl = 200" by simp
  from cluster_aligned_boundaries [OF p m c e n l, of 100 "[]"] p show ?thesis by auto
qed

text \<open>
  The claim C7 as stated fails for a cluster list that does not hold 0: with the clusters
  \<open>[100, 200]\<close> and the target 100 the first unit starts at 0, which is no member.
\<close>

theorem cluster_aligned_boundaries_counterexample:
  "populated (example_clustered ''c.root'' [100, 200]) True
   \<and> map span (case chunks (example_clustered ''c.root'' [100, 200]) 100 True False [] of
                 Some (Inr ws) \<Rightarrow> ws | _ \<Rightarrow> []) = [(0, 100), (100, 200)]
   \<and> (0::int) \<notin> set [100, 200]"
  by code_simp

section \<open>The per-dataset cap\<close>

lemma chunks_static_total: "chunks f T al False sent \<noteq> None"
proof (cases "populated f al")
  case False
  then show ?thesis by (simp add: chunks_def)
next
  case True
  then obtain md where md: "metadata f = Some md"
    by (auto simp: populated_def split: option.splits)
  from populated_keys [OF True md] obtain u where u: "map_of md ''uuid'' = Some u" by blast
  show ?thesis
  proof (cases al)
    case True
    then show ?thesis using \<open>populated f al\<close> md u
      by (auto simp: chunks_def Let_def split: option.splits mval.splits sum.splits)
  next
    case False
    have ev: "even_loop False E a 0 sent \<noteq> None" if "even_chunksize E T = Inr a" for E a
    proof -
      have "0 < a \<or> E \<le> 0"
      proof (cases "0 < E")
        case True
        from even_chunksize_Inr_pos [OF that True] show ?thesis ..
      next
        case False
        then show ?thesis by simp
      qed
      from even_loop_static [OF this, of sent] show ?thesis by auto
    qed
    show ?thesis using False \<open>populated f al\<close> md u ev
      by (auto simp: chunks_def Let_def split: option.splits mval.splits sum.splits)
  qed
qed

lemma chunks_dataset:
  "chunks f T al dyn sent = Some (Inr ws) \<Longrightarrow> w \<in> set ws \<Longrightarrow> dataset w = dataset f"
  by (auto simp: chunks_def Let_def dataset_mk_WorkItem
      split: if_splits option.splits mval.splits sum.splits)

lemma take_chunks_counted:
  assumes "\<forall>c\<in>set cs. dataset c = ds" and "counted m st" and "snd st ds < m"
  shows "counted m (take_chunks m ds cs st)
         \<and> set (fst (take_chunks m ds cs st)) \<subseteq> set (fst st) \<union> set cs"
  using assms
proof (induction cs arbitrary: st)
  case Nil
  then show ?case by simp
next
  case (Cons c cs)
  let ?st' = "(fst st @ [c], (snd st)(ds := snd st ds + 1))"
  have dc: "dataset c = ds" using Cons.prems(1) by simp
  have cnt: "counted m ?st'"
    using Cons.prems(2,3) dc by (auto simp: counted_def units_of_dataset_def)
  show ?case
  proof (cases "snd st ds + 1 \<ge> m")
    case True
    then show ?thesis using cnt by (auto simp: Let_def)
  next
    case False
    then have lt: "snd ?st' ds < m" by simp
    have "\<forall>c\<in>set cs. dataset c = ds" using Cons.prems(1) by simp
    from Cons.IH [OF this cnt lt] show ?thesis using False by (auto simp: Let_def)
  qed
qed

lemma chunk_generator_limited_counted:
  assumes "counted m st"
  shows "\<exists>r. chunk_generator_limited fs T al m st = Some r \<and>
           (\<forall>out. r = Inr out \<longrightarrow>
              (\<forall>d. int (length (units_of_dataset d out)) \<le> m) \<and>
              set out \<subseteq> set (fst st) \<union>
                {w. \<exists>f\<in>set fs. \<exists>us. chunks f T al False [] = Some (Inr us) \<and> w \<in> set us})"
  using assms
proof (induction fs arbitrary: st)
  case Nil
  then show ?case by (auto simp: counted_def)
next
  case (Cons f fs)
  show ?case
  proof (cases "snd st (dataset f) \<ge> m")
    case True
    from Cons.IH [OF Cons.prems] show ?thesis using True by auto
  next
    case False
    from chunks_static_total [of f T al "[]"] obtain r where r: "chunks f T al False [] = Some r"
      by auto
    show ?thesis
    proof (cases r)
      case (Inl e)
      then show ?thesis using False r by simp
    next
      case (Inr ws)
      have ds: "\<forall>c\<in>set ws. dataset c = dataset f"
        using chunks_dataset r Inr by blast
      have lt: "snd st (dataset f) < m" using False by simp
      from take_chunks_counted [OF ds Cons.prems lt] have
        tc: "counted m (take_chunks m (dataset f) ws st)"
            "set (fst (take_chunks m (dataset f) ws st)) \<subseteq> set (fst st) \<union> set ws" by auto
      from Cons.IH [OF tc(1)] obtain r' where
        r': "chunk_generator_limited fs T al m (take_chunks m (dataset f) ws st) = Some r'"
            "\<forall>out. r' = Inr out \<longrightarrow>
              (\<forall>d. int (length (units_of_dataset d out)) \<le> m) \<and>
              set out \<subseteq> set (fst (take_chunks m (dataset f) ws st)) \<union>
                {w. \<exists>f\<in>set fs. \<exists>us. chunks f T al False [] = Some (Inr us) \<and> w \<in> set us}"
        by blast
      have eq: "chunk_generator_limited (f # fs) T al m st = Some r'"
        using False r Inr r'(1) by simp
      have "\<forall>out. r' = Inr out \<longrightarrow>
              (\<forall>d. int (length (units_of_dataset d out)) \<le> m) \<and>
              set out \<subseteq> set (fst st) \<union>
                {w. \<exists>g\<in>set (f # fs). \<exists>us. chunks g T al False [] = Some (Inr us) \<and> w \<in> set us}"
      proof (rule allI, rule impI, rule conjI)
        fix out assume o: "r' = Inr out"
        show "\<forall>d. int (length (units_of_dataset d out)) \<le> m" using r'(2) o by blast
        show "set out \<subseteq> set (fst st) \<union>
                {w. \<exists>g\<in>set (f # fs). \<exists>us. chunks g T al False [] = Some (Inr us) \<and> w \<in> set us}"
        proof
          fix w assume "w \<in> set out"
          with r'(2) o have "w \<in> set (fst (take_chunks m (dataset f) ws st)) \<or>
              (\<exists>g\<in>set fs. \<exists>us. chunks g T al False [] = Some (Inr us) \<and> w \<in> set us)" by blast
          then show "w \<in> set (fst st) \<union>
                {w. \<exists>g\<in>set (f # fs). \<exists>us. chunks g T al False [] = Some (Inr us) \<and> w \<in> set us}"
            using tc(2) r Inr by auto
        qed
      qed
      with eq show ?thesis by blast
    qed
  qed
qed

lemma yield_from_iter_take: "\<exists>n. fst (yield_from_iter cs sent) = take n cs"
proof (induction cs arbitrary: sent)
  case Nil
  then show ?case by simp
next
  case (Cons c cs)
  show ?case
  proof (cases "\<exists>v rest. sent = Some v # rest")
    case True
    then have "fst (yield_from_iter (c # cs) sent) = take 1 (c # cs)" by auto
    then show ?thesis by blast
  next
    case False
    from Cons.IH [of "tl sent"] obtain n where n: "fst (yield_from_iter cs (tl sent)) = take n cs"
      by blast
    have "fst (yield_from_iter (c # cs) sent) = c # fst (yield_from_iter cs (tl sent))"
      using False by (auto split: list.splits option.splits prod.splits)
    then have "fst (yield_from_iter (c # cs) sent) = take (Suc n) (c # cs)" using n by simp
    then show ?thesis by blast
  qed
qed

lemma units_of_dataset_take:
  "length (units_of_dataset d (take n ws)) \<le> length (units_of_dataset d ws)"
proof -
  have "units_of_dataset d ws = units_of_dataset d (take n ws) @ units_of_dataset d (drop n ws)"
    unfolding units_of_dataset_def by (metis append_take_drop_id filter_append)
  then show ?thesis by simp
qed

lemma maxchunks_bound_nonneg:
  assumes "0 \<le> m"
  shows "\<exists>ws err. chunk_generator fileset chunksize align_clusters (Some m) dynamic_chunksize sent
                     = Some (ws, err)
           \<and> (\<forall>d. int (length (units_of_dataset d ws)) \<le> m)
           \<and> (\<forall>w\<in>set ws. \<exists>f\<in>set fileset. \<exists>us.
                  chunks f chunksize align_clusters False [] = Some (Inr us) \<and> w \<in> set us)"
proof -
  have c0: "counted m ([], \<lambda>_. 0)" using assms by (simp add: counted_def units_of_dataset_def)
  from chunk_generator_limited_counted [OF c0, of fileset chunksize align_clusters] obtain r where
    r: "chunk_generator_limited fileset chunksize align_clusters m ([], \<lambda>_. 0) = Some r"
       "\<forall>out. r = Inr out \<longrightarrow>
              (\<forall>d. int (length (units_of_dataset d out)) \<le> m) \<and>
              set out \<subseteq> set (fst ([]::WorkItem list, \<lambda>_::string. 0::int)) \<union>
                {w. \<exists>f\<in>set fileset. \<exists>us. chunks f chunksize align_clusters False [] = Some (Inr us) \<and> w \<in> set us}"
    by blast
  show ?thesis
  proof (cases r)
    case (Inl e)
    then have "chunk_generator fileset chunksize align_clusters (Some m) dynamic_chunksize sent
                 = Some ([], Some e)"
      using r(1) by (simp add: chunk_generator_def)
    then show ?thesis using assms by (simp add: units_of_dataset_def)
  next
    case (Inr out)
    from yield_from_iter_take [of out sent] obtain n where
      n: "fst (yield_from_iter out sent) = take n out" by blast
    have g: "chunk_generator fileset chunksize align_clusters (Some m) dynamic_chunksize sent
               = Some (take n out, snd (yield_from_iter out sent))"
      using r(1) Inr n by (simp add: chunk_generator_def prod_eq_iff)
    have b: "\<forall>d. int (length (units_of_dataset d (take n out))) \<le> m"
    proof
      fix d
      have "int (length (units_of_dataset d (take n out))) \<le> int (length (units_of_dataset d out))"
        using units_of_dataset_take [of d n out] by simp
      also have "\<dots> \<le> m" using r(2) Inr by blast
      finally show "int (length (units_of_dataset d (take n out))) \<le> m" .
    qed
    have s: "\<forall>w\<in>set (take n out). \<exists>f\<in>set fileset. \<exists>us.
                  chunks f chunksize align_clusters False [] = Some (Inr us) \<and> w \<in> set us"
    proof
      fix w assume "w \<in> set (take n out)"
      then have "w \<in> set out" by (rule in_set_takeD)
      then show "\<exists>f\<in>set fileset. \<exists>us.
                  chunks f chunksize align_clusters False [] = Some (Inr us) \<and> w \<in> set us"
        using r(2) Inr by auto
    qed
    show ?thesis using g b s by blast
  qed
qed

lemma chunk_generator_limited_skips:
  "\<forall>d. snd st d \<ge> m \<Longrightarrow> chunk_generator_limited fs T al m st = Some (Inr (fst st))"
  by (induction fs) auto

text \<open>
  Claim C10. For every file set and every cap \<open>maxchunks = m\<close>, the chunk generator
  ends, yields at most \<open>m\<close> units of each dataset (none at all when \<open>m\<close> is not
  positive), and every unit it yields is a unit of the static plan of one of the files:
  the plan made with \<open>dynamic_chunksize\<close> false and nothing sent, whatever
  \<open>dynamic_chunksize\<close> the generator was given.
\<close>

theorem maxchunks_bound:
  "\<exists>ws err. chunk_generator fileset chunksize align_clusters (Some m) dynamic_chunksize sent
                     = Some (ws, err)
           \<and> (\<forall>d. int (length (units_of_dataset d ws)) \<le> max m 0)
           \<and> (\<forall>w\<in>set ws. \<exists>f\<in>set fileset. \<exists>us.
                  chunks f chunksize align_clusters False [] = Some (Inr us) \<and> w \<in> set us)"
proof (cases "0 \<le> m")
  case True
  then have "max m 0 = m" by simp
  then show ?thesis
    using maxchunks_bound_nonneg [OF True, of fileset chunksize align_clusters dynamic_chunksize sent]
    by simp
next
  case False
  then have "\<forall>d. snd (([]::WorkItem list), (\<lambda>_::string. 0::int)) d \<ge> m" by simp
  from chunk_generator_limited_skips [OF this, of fileset chunksize align_clusters]
  have "chunk_generator fileset chunksize align_clusters (Some m) dynamic_chunksize sent
          = Some ([], None)"
    by (simp add: chunk_generator_def)
  then show ?thesis by (simp add: units_of_dataset_def)
qed

theorem maxchunks_bound_witness:
  "\<exists>ws err. chunk_generator
                 [example_clustered ''a.root'' [0, 100, 200, 300], example_file ''b.root'' 50000]
                 100 True (Some 2) True [] = Some (ws, err)
           \<and> (\<forall>d. int (length (units_of_dataset d ws)) \<le> max 2 0)
           \<and> (\<forall>w\<in>set ws.
                 \<exists>f\<in>set [example_clustered ''a.root'' [0, 100, 200, 300], example_file ''b.root'' 50000].
                  \<exists>us. chunks f 100 True False [] = Some (Inr us) \<and> w \<in> set us)"
  using maxchunks_bound [of
      "[example_clustered ''a.root'' [0, 100, 200, 300], example_file ''b.root'' 50000]"
      100 True 2 True "[]"] by simp

section \<open>The reducer and the codec\<close>

text \<open>
  Claim C6. Reducing an empty sequence raises \<^verbatim>\<open>ValueError\<close>, with or without
  compression and whatever the merge operation is; it returns no value.
\<close>

theorem reduce_empty_raises:
  "reduce_call c add clevel [] = Inl (ValueError ''Empty list provided to reduction'')
   \<and> (\<forall>v. reduce_call c add clevel [] \<noteq> Inr v)"
  by (simp add: reduce_call_def)

lemma decompress_compress:
  "roundtrips c x \<Longrightarrow> decompress c (compress c x level) = Inr x"
  by (simp add: roundtrips_def decompress_def compress_def)

lemma reduce_call_compressed:
  assumes "items \<noteq> []" and "decompress c (last items) = Inr out"
    and "fst (accumulate add (decompress c) (butlast items) out) = Inr merged"
  shows "reduce_call c add (Some level) items = Inr (compress c merged level)"
  using assms by (simp add: reduce_call_def)

text \<open>
  Claim C9. For every value \<open>x\<close> that the libraries restore and every level,
  \<open>decompress (compress x) = x\<close>. For the compressed reducer on a sequence that is not
  empty: when the last payload decompresses to \<open>out\<close> and folding the decompressed other
  payloads into \<open>out\<close> gives \<open>merged\<close>, a value the libraries restore, the reducer
  returns a payload that decompresses to \<open>merged\<close>.
\<close>

theorem compress_roundtrip:
  "(roundtrips c x \<longrightarrow> decompress c (compress c x level) = Inr x)
   \<and> (items \<noteq> [] \<and> decompress c (last items) = Inr out
        \<and> fst (accumulate add (decompress c) (butlast items) out) = Inr merged
        \<and> roundtrips c merged
      \<longrightarrow> and_then (reduce_call c add (Some level) items) (decompress c) = Inr merged)"
  by (auto simp: decompress_compress reduce_call_compressed and_then_def)

lemma toy_roundtrips: "0 \<le> n \<Longrightarrow> roundtrips toy_codec (Num n)"
  by (simp add: roundtrips_def toy_codec_def)

theorem compress_roundtrip_witness:
  "roundtrips toy_codec (Num 4) \<and> decompress toy_codec (compress toy_codec (Num 4) 1) = Inr (Num 4)
   \<and> [compress toy_codec (Num 2) 1, compress toy_codec (Num 3) 1, compress toy_codec (Num 4) 1] \<noteq> []
   \<and> roundtrips toy_codec (Num 9)
   \<and> and_then (reduce_call toy_codec toy_add (Some 1)
                  [compress toy_codec (Num 2) 1, compress toy_codec (Num 3) 1, compress toy_codec (Num 4) 1])
        (decompress toy_codec) = Inr (Num 9)"
proof -
  let ?items = "[compress toy_codec (Num 2) 1, compress toy_codec (Num 3) 1, compress toy_codec (Num 4) 1]"
  have r4: "roundtrips toy_codec (Num 4)" by (simp add: toy_roundtrips)
  have r9: "roundtrips toy_codec (Num 9)" by (simp add: toy_roundtrips)
  have d: "decompress toy_codec (last ?items) = Inr (Num 4)"
    by (simp add: decompress_compress r4)
  have a: "fst (accumulate toy_add (decompress toy_codec) (butlast ?items) (Num 4)) = Inr (Num 9)"
    by (simp add: accumulate_def decompress_compress toy_roundtrips toy_add_def)
  have ne: "?items \<noteq> []" by simp
  show ?thesis
    using compress_roundtrip [of toy_codec "Num 4" 1 ?items "Num 4" toy_add "Num 9"] r4 r9 d a ne
    by blast
qed

section \<open>Empty input of an executor\<close>

text \<open>
  Claim C4. With an empty sequence of items the sequential executor and the
  local-parallel executor return the seed as it is, whatever the function, the seed and
  the other arguments, and the function is called on (submitted for) no item.
\<close>

theorem empty_items_return_seed:
  "iterative_executor add [] function accumulator = (Inr accumulator, [])
   \<and> futures_executor c add running_final sched [] function accumulator clevel tailtimeout
       = Some (Inr accumulator, [])"
  by (simp add: iterative_executor_def futures_executor_def)

section \<open>Retry and skip in the unit of work\<close>

lemma work_function_oserror_single_attempt:
  assumes "skipbadfiles cfg" and "\<not> use_dataframes cfg" and "0 \<le> retries cfg"
    and "try_body cfg (env 0) None = (Raises (OSError msg), out')"
    and "\<not> str_contains ''Auth failed'' msg"
  shows "work_function cfg item env =
           ((case out' of None \<Rightarrow> Inl (UnboundLocalError ''out'') | Some v \<Rightarrow> Inr (Dict [(''out'', v)])),
            [bad_file_warning (filename item) (retries cfg) 0], 1)"
  using assms by (simp add: work_function_def)

lemma work_function_oserror_propagates:
  assumes "\<not> skipbadfiles cfg \<or> str_contains ''Auth failed'' msg" and "0 \<le> retries cfg"
    and "try_body cfg (env 0) None = (Raises (OSError msg), out')"
  shows "work_function cfg item env = (Inl (OSError msg), [], 1)"
  using assms by (auto simp: work_function_def)

lemma work_function_dataframes_retries:
  "work_function
     \<lparr>savemetrics = False, schema = SchemaClass, skipbadfiles = True, retries = 2,
      use_dataframes = True\<rparr>
     example_unit
     (\<lambda>k. if k = 0 then OpenFails (OSError ''Connection timed out'')
          else Yields (Acc ()) PyNone None)
   = (Inr (Acc ()), [BadFileSource ''a.root'' (Some (1, 3)) True], 2)"
  by (simp add: work_function_def try_body_def bad_file_warning_def example_unit_def)

lemma get_metadata_oserror_retries:
  "get_metadata (example_file ''a.root'' 0)
     (\<lambda>k. if k = 0 then Inl (OSError ''Connection timed out'')
          else Inr (250000, BytesV ''a.root'', [0, 250000]))
     True 2 False
   = (Inr [example_file ''a.root'' 250000], [BadFileSource ''a.root'' (Some (1, 3)) True], 2)"
  by (simp add: get_metadata_def bad_file_warning_def example_file_def setitem_def)

text \<open>
  Claim C3 at a failing input: \<^verbatim>\<open>skipbadfiles\<close> true, \<^verbatim>\<open>retries = 2\<close>,
  \<^verbatim>\<open>use_dataframes\<close> false; opening the file raises an \<^verbatim>\<open>OSError\<close> that is no
  authentication failure at the first attempt and would succeed at the second. The
  function warns (attempt 1 of 3, "Will retry."), makes no second attempt, and raises
  UnboundLocalError from \<^verbatim>\<open>return {"out": out}\<close>.
\<close>

theorem work_function_oserror_no_retry:
  "work_function
     \<lparr>savemetrics = False, schema = SchemaClass, skipbadfiles = True, retries = 2,
      use_dataframes = False\<rparr>
     example_unit
     (\<lambda>k. if k = 0 then OpenFails (OSError ''Connection timed out'')
          else Yields (Acc ()) PyNone None)
   = (Inl (UnboundLocalError ''out''), [BadFileSource ''a.root'' (Some (1, 3)) True], 1)"
  by (simp add: work_function_def try_body_def bad_file_warning_def example_unit_def)

section \<open>Tail stall in the completion handler\<close>

lemma futures_handler_loop_returns:
  "\<exists>h. futures_handler_loop res (Some t) rf sched futures cancelled = Some h"
proof (induction sched arbitrary: futures cancelled)
  case Nil
  then show ?case by simp
next
  case (Cons ev sched)
  show ?case
  proof (cases ev)
    case (Completed ds)
    define dn where "dn = filter (\<lambda>j. j \<in> set futures) (remdups ds)"
    define not_done where "not_done = filter (\<lambda>j. j \<notin> set dn) futures"
    from Cons.IH [of not_done cancelled] obtain h where
      h: "futures_handler_loop res (Some t) rf sched not_done cancelled = Some h" by blast
    show ?thesis
      using Completed h
      by (auto simp: Let_def dn_def not_done_def split: prod.splits option.splits)
  next
    case (Interrupted running)
    from Cons.IH [of futures "cancelled @ filter (\<lambda>j. j \<notin> set running) futures"]
    show ?thesis using Interrupted by (auto simp: Let_def)
  qed
qed

lemma futures_handler_loop_stall:
  assumes "futures \<noteq> []"
    and "sched = [] \<or> (\<exists>ds rest. sched = Completed ds # rest \<and> set ds \<inter> set futures = {})"
  shows "futures_handler_loop res (Some t) rf sched futures cancelled =
           Some (emit [] [NoFinishedJobs t (length futures)] [] (finalise rf futures None))"
proof -
  have "filter (\<lambda>j. j \<in> set futures) (remdups ds) = []" if "set ds \<inter> set futures = {}" for ds
    using that by (auto simp: filter_empty_conv)
  then show ?thesis using assms by (auto simp: Let_def)
qed

lemma emit_fields:
  "yielded (emit ys ws cs h) = ys @ yielded h"
  "raised (emit ys ws cs h) = raised h"
  "warned (emit ys ws cs h) = ws @ warned h"
  "cancels (emit ys ws cs h) = cs @ cancels h"
  by (simp_all add: emit_def)

lemma finalise_fields:
  "yielded (finalise rf futures e) = []"
  "raised (finalise rf futures e) = e"
  "cancels (finalise rf futures e) = futures"
  by (simp_all add: finalise_def Let_def)

lemma emit_emit: "emit ys [] [] (emit ys' ws cs h) = emit (ys @ ys') ws cs h"
  by (simp add: emit_def)

lemma drain_all_ok:
  "\<forall>j\<in>set js. res j = Done_ok (v j) \<Longrightarrow> drain res [] js = (map v js, None)"
  by (induction js) auto

lemma futures_handler_loop_prompt:
  assumes "distinct futures" and "distinct (concat batches)"
    and "set (concat batches) \<subseteq> set futures"
    and "\<forall>b\<in>set batches. b \<noteq> []"
    and "\<forall>j\<in>set (concat batches). res j = Done_ok (v j)"
    and "filter (\<lambda>j. j \<notin> set (concat batches)) futures \<noteq> []"
  shows "futures_handler_loop res (Some t) rf (map Completed batches) futures [] =
           Some (emit (map v (concat batches))
                   [NoFinishedJobs t (length (filter (\<lambda>j. j \<notin> set (concat batches)) futures))] []
                   (finalise rf (filter (\<lambda>j. j \<notin> set (concat batches)) futures) None))"
  using assms
proof (induction batches arbitrary: futures)
  case Nil
  then show ?case by simp
next
  case (Cons b bs)
  let ?not_done = "filter (\<lambda>j. j \<notin> set b) futures"
  have fne: "futures \<noteq> []" using Cons.prems(6) by auto
  have db: "distinct b" using Cons.prems(2) by simp
  have sb: "set b \<subseteq> set futures" using Cons.prems(3) by simp
  have dn: "filter (\<lambda>j. j \<in> set futures) (remdups b) = b"
    using db sb by (simp add: distinct_remdups_id subset_iff)
  have bne: "b \<noteq> []" using Cons.prems(4) by simp
  have dr: "drain res [] b = (map v b, None)"
    using Cons.prems(5) by (intro drain_all_ok) simp
  have disj: "set b \<inter> set (concat bs) = {}" using Cons.prems(2) by auto
  have rest: "filter (\<lambda>j. j \<notin> set (concat bs)) ?not_done
                = filter (\<lambda>j. j \<notin> set (concat (b # bs))) futures"
    by (auto intro: filter_cong)
  have ih: "futures_handler_loop res (Some t) rf (map Completed bs) ?not_done [] =
           Some (emit (map v (concat bs))
                   [NoFinishedJobs t (length (filter (\<lambda>j. j \<notin> set (concat bs)) ?not_done))] []
                   (finalise rf (filter (\<lambda>j. j \<notin> set (concat bs)) ?not_done) None))"
  proof (rule Cons.IH)
    show "distinct ?not_done" using Cons.prems(1) by simp
    show "distinct (concat bs)" using Cons.prems(2) by simp
    show "set (concat bs) \<subseteq> set ?not_done" using Cons.prems(3) disj by auto
    show "\<forall>b\<in>set bs. b \<noteq> []" using Cons.prems(4) by simp
    show "\<forall>j\<in>set (concat bs). res j = Done_ok (v j)" using Cons.prems(5) by simp
    show "filter (\<lambda>j. j \<notin> set (concat bs)) ?not_done \<noteq> []" using Cons.prems(6) rest by simp
  qed
  have "futures_handler_loop res (Some t) rf (map Completed (b # bs)) futures [] =
          map_option (emit (map v b) [] [])
            (futures_handler_loop res (Some t) rf (map Completed bs) ?not_done [])"
    using fne dn bne dr by (simp add: Let_def)
  then show ?case using ih rest by (simp add: emit_emit)
qed

lemma filter_only_stuck:
  "distinct futures \<Longrightarrow> stuck \<in> set futures \<Longrightarrow>
     filter (\<lambda>j. j \<notin> set futures - {stuck}) futures = [stuck]"
proof -
  assume d: "distinct futures" and s: "stuck \<in> set futures"
  have "filter (\<lambda>j. j \<notin> set futures - {stuck}) futures = filter (\<lambda>j. j = stuck) futures"
    by (rule filter_cong) auto
  also have "\<dots> = [stuck]" using d s
  proof (induction futures)
    case Nil
    then show ?case by simp
  next
    case (Cons a as)
    then show ?case by (cases "a = stuck") (auto simp: filter_empty_conv)
  qed
  finally show ?thesis .
qed

text \<open>
  Claim C8. With a tail timeout \<open>t\<close> the handler always ends, whatever completes and
  whenever. If operations remain and a wait period passes without a completion, it
  yields nothing more, warns that no job finished in \<open>t\<close> seconds, and cancels every
  remaining operation. In particular, when all operations but one (\<open>stuck\<close>) finish
  with a result, at least one in each wait, and \<open>stuck\<close> never finishes, the handler
  yields the results of the others in their completion order, warns, cancels \<open>stuck\<close>
  and ends.
\<close>

theorem tail_stall_cancels:
  "(\<exists>h. futures_handler res (Some t) rf sched futures = Some h)
   \<and> (pending \<noteq> [] \<and> (sched = [] \<or> (\<exists>ds rest. sched = Completed ds # rest \<and> set ds \<inter> set pending = {}))
        \<longrightarrow> (\<exists>h. futures_handler_loop res (Some t) rf sched pending cancelled = Some h
               \<and> yielded h = [] \<and> raised h = None
               \<and> NoFinishedJobs t (length pending) \<in> set (warned h) \<and> cancels h = pending))
   \<and> (distinct futures \<and> stuck \<in> set futures \<and> distinct (concat batches)
        \<and> set (concat batches) = set futures - {stuck} \<and> (\<forall>b\<in>set batches. b \<noteq> [])
        \<and> (\<forall>j\<in>set (concat batches). res j = Done_ok (v j))
        \<longrightarrow> (\<exists>h. futures_handler res (Some t) rf (map Completed batches) futures = Some h
               \<and> yielded h = map v (concat batches) \<and> length (yielded h) = length futures - 1
               \<and> raised h = None \<and> NoFinishedJobs t 1 \<in> set (warned h) \<and> cancels h = [stuck]))"
proof (intro conjI impI)
  show "\<exists>h. futures_handler res (Some t) rf sched futures = Some h"
    unfolding futures_handler_def by (rule futures_handler_loop_returns)
next
  assume a: "pending \<noteq> [] \<and> (sched = [] \<or> (\<exists>ds rest. sched = Completed ds # rest \<and> set ds \<inter> set pending = {}))"
  then have "futures_handler_loop res (Some t) rf sched pending cancelled =
           Some (emit [] [NoFinishedJobs t (length pending)] [] (finalise rf pending None))"
    by (intro futures_handler_loop_stall) auto
  then show "\<exists>h. futures_handler_loop res (Some t) rf sched pending cancelled = Some h
               \<and> yielded h = [] \<and> raised h = None
               \<and> NoFinishedJobs t (length pending) \<in> set (warned h) \<and> cancels h = pending"
    by (simp add: emit_fields finalise_fields)
next
  assume a: "distinct futures \<and> stuck \<in> set futures \<and> distinct (concat batches)
        \<and> set (concat batches) = set futures - {stuck} \<and> (\<forall>b\<in>set batches. b \<noteq> [])
        \<and> (\<forall>j\<in>set (concat batches). res j = Done_ok (v j))"
  then have rest: "filter (\<lambda>j. j \<notin> set (concat batches)) futures = [stuck]"
    using filter_only_stuck [of futures stuck] by simp
  have rd: "remdups futures = futures" using a by (simp add: distinct_remdups_id)
  have p: "futures_handler_loop res (Some t) rf (map Completed batches) futures [] =
           Some (emit (map v (concat batches))
                   [NoFinishedJobs t (length (filter (\<lambda>j. j \<notin> set (concat batches)) futures))] []
                   (finalise rf (filter (\<lambda>j. j \<notin> set (concat batches)) futures) None))"
    using a rest by (intro futures_handler_loop_prompt) auto
  have h: "futures_handler res (Some t) rf (map Completed batches) futures =
           Some (emit (map v (concat batches)) [NoFinishedJobs t 1] [] (finalise rf [stuck] None))"
    unfolding futures_handler_def rd using p unfolding rest by simp
  have d1: "distinct futures" and s1: "stuck \<in> set futures"
    and d2: "distinct (concat batches)"
    and e: "set (concat batches) = set futures - {stuck}"
    using a by blast+
  have len: "length (concat batches) = length futures - 1"
  proof -
    have "length (concat batches) = card (set (concat batches))"
      using d2 by (rule distinct_card [symmetric])
    also have "\<dots> = card (set futures - {stuck})" by (simp only: e)
    also have "\<dots> = card (set futures) - 1" using s1 by simp
    also have "\<dots> = length futures - 1" using d1 by (simp only: distinct_card)
    finally show ?thesis .
  qed
  show "\<exists>h. futures_handler res (Some t) rf (map Completed batches) futures = Some h
               \<and> yielded h = map v (concat batches) \<and> length (yielded h) = length futures - 1
               \<and> raised h = None \<and> NoFinishedJobs t 1 \<in> set (warned h) \<and> cancels h = [stuck]"
    using h len by (simp add: emit_fields finalise_fields)
qed

theorem tail_stall_cancels_witness:
  "(\<exists>h. futures_handler_loop (\<lambda>j. Done_ok (j * 10)) (Some 5) [3] [Completed [1]] [3] [] = Some h
        \<and> yielded h = [] \<and> raised h = None
        \<and> NoFinishedJobs 5 (length [3::nat]) \<in> set (warned h) \<and> cancels h = [3])
   \<and> (\<exists>h. futures_handler (\<lambda>j. Done_ok (j * 10)) (Some 5) [3]
               (map Completed [[1], [0, 2]]) [0, 1, 2, 3] = Some h
        \<and> yielded h = map (\<lambda>j. j * 10) (concat [[1], [0, 2]])
        \<and> length (yielded h) = length [0, 1, 2, 3::nat] - 1
        \<and> raised h = None \<and> NoFinishedJobs 5 1 \<in> set (warned h) \<and> cancels h = [3])"
proof -
  have a1: "[3::nat] \<noteq> [] \<and>
      ([Completed [1]] = [] \<or>
       (\<exists>ds rest. [Completed [1]] = Completed ds # rest \<and> set ds \<inter> set [3::nat] = {}))"
    by simp
  have s: "set (concat [[1], [0, 2::nat]]) = set [0, 1, 2, 3] - {3}" by auto
  have a2: "distinct [0, 1, 2, 3::nat] \<and> 3 \<in> set [0, 1, 2, 3::nat]
      \<and> distinct (concat [[1], [0, 2::nat]])
      \<and> set (concat [[1], [0, 2::nat]]) = set [0, 1, 2, 3] - {3}
      \<and> (\<forall>b\<in>set [[1], [0, 2::nat]]. b \<noteq> [])
      \<and> (\<forall>j\<in>set (concat [[1], [0, 2::nat]]). (\<lambda>j. Done_ok (j * 10)) j = Done_ok ((\<lambda>j. j * 10) j))"
    using s by simp
  note T = tail_stall_cancels [where res = "\<lambda>j. Done_ok (j * 10)" and t = 5 and rf = "[3]"
      and sched = "[Completed [1]]" and futures = "[0, 1, 2, 3]" and pending = "[3]"
      and cancelled = "[]" and stuck = 3 and batches = "[[1], [0, 2]]" and v = "\<lambda>j. j * 10"]
  from T a1 have p1: "\<exists>h. futures_handler_loop (\<lambda>j. Done_ok (j * 10)) (Some 5) [3] [Completed [1]] [3] [] = Some h
        \<and> yielded h = [] \<and> raised h = None
        \<and> NoFinishedJobs 5 (length [3::nat]) \<in> set (warned h) \<and> cancels h = [3]"
    by blast
  from T a2 have p2: "\<exists>h. futures_handler (\<lambda>j. Done_ok (j * 10)) (Some 5) [3]
               (map Completed [[1], [0, 2]]) [0, 1, 2, 3] = Some h
        \<and> yielded h = map (\<lambda>j. j * 10) (concat [[1], [0, 2]])
        \<and> length (yielded h) = length [0, 1, 2, 3::nat] - 1
        \<and> raised h = None \<and> NoFinishedJobs 5 1 \<in> set (warned h) \<and> cancels h = [3]"
    by blast
  from p1 p2 show ?thesis by (rule conjI)
qed

section \<open>The job on an empty file set\<close>

lemma empty_fileset_job:
  assumes "\<not> arg_flatten executor_args" and "\<not> arg_nano executor_args"
    and "executor [] closure_of PyNone (arg_kwargs executor_args) = Some (Inr PyNone, [])"
  shows "dispatch (Processor postprocess) executor (arg_kwargs executor_args) sm df [] closure_of
         = Some (Inl (TypeError ''NoneType object is not subscriptable''), [])"
  using assms by (simp add: dispatch_def getitem_def and_then_def)

lemma empty_fileset_plan:
  "chunk_generator [] chunksize align maxchunks dynamic_chunksize [] = Some ([], None)"
  by (simp add: chunk_generator_def split: option.split)

lemma empty_fileset_job_iterative:
  assumes "\<not> arg_flatten executor_args" and "\<not> arg_nano executor_args"
  shows "run_uproot_job world (FilesetMapping []) tree (Processor postprocess) kind
           (iterative_callable add) executor_args pre_executor chunksize None metadata_cache False
         = Some (Inl (TypeError ''NoneType object is not subscriptable''), [])"
  using assms
  by (simp add: run_uproot_job_def normalize_fileset_def preprocess_fileset_def
      chunk_generator_def list_of_gen_def dispatch_def iterative_callable_def
      iterative_executor_def getitem_def and_then_def Let_def)

lemma empty_fileset_job_futures:
  assumes "\<not> arg_flatten executor_args" and "\<not> arg_nano executor_args"
  shows "run_uproot_job world (FilesetMapping []) tree (Processor postprocess) kind
           (futures_callable c add running_final sched) executor_args pre_executor chunksize None
           metadata_cache False
         = Some (Inl (TypeError ''NoneType object is not subscriptable''), [])"
  using assms
  by (simp add: run_uproot_job_def normalize_fileset_def preprocess_fileset_def
      chunk_generator_def list_of_gen_def dispatch_def futures_callable_def
      futures_executor_def getitem_def and_then_def Let_def)

text \<open>
  Claim C5 at a failing input: the empty file set \<^verbatim>\<open>{}\<close>, run with
  \<^verbatim>\<open>iterative_executor\<close> and the default arguments. No unit function is called, and the
  executor returns its seed, which the job passes as \<^verbatim>\<open>None\<close>; the job then evaluates
  \<^verbatim>\<open>wrapped_out["out"]\<close> and raises TypeError instead of returning.
\<close>

theorem empty_fileset_job_raises:
  "run_uproot_job example_world (FilesetMapping []) (Some ''Events'') (Processor (\<lambda>out. None))
     Iterative (iterative_callable dict_add) example_args None 100000 None None False
   = Some (Inl (TypeError ''NoneType object is not subscriptable''), [])"
  by (simp add: run_uproot_job_def normalize_fileset_def preprocess_fileset_def
      chunk_generator_def list_of_gen_def dispatch_def iterative_callable_def
      iterative_executor_def getitem_def and_then_def Let_def example_args_def example_world_def)

end
